theory Spec2Isabelle
  imports Complex_Main
begin

section \<open>Configuration, errors and the random source\<close>

text \<open>
  The module-level constants of \<^verbatim>\<open>multi_armed_bandit.py\<close> (lines 26-33) are
  ordinary Python integers, a float and a list, read by every function. They are kept
  together in one record that every function of the model receives; Python integers are
  \<open>int\<close>, floats are reals and their arithmetic is exact. The constants of the source are
  \<open>default_config\<close>: each float literal stands for the double it denotes (\<^verbatim>\<open>0.1\<close> is
  \<open>3602879701896397 / 2\<^sup>5\<^sup>5\<close>, \<^verbatim>\<open>0.2\<close>, \<^verbatim>\<open>0.4\<close>, \<^verbatim>\<open>0.8\<close> the same numerator over
  \<open>2\<^sup>5\<^sup>4\<close>, \<open>2\<^sup>5\<^sup>3\<close>, \<open>2\<^sup>5\<^sup>2\<close>, and \<^verbatim>\<open>0.3\<close>, \<^verbatim>\<open>0.6\<close> are \<open>5404319552844595\<close> over
  \<open>2\<^sup>5\<^sup>4\<close>, \<open>2\<^sup>5\<^sup>3\<close>).
\<close>

record config =
  NUM_ARMS :: int
  NUM_STEPS :: int
  NUM_RUNS :: int
  EPSILON :: real
  TRUE_MEANS :: "real list"

definition default_config :: config where
  "default_config =
     \<lparr>NUM_ARMS = 5, NUM_STEPS = 1000, NUM_RUNS = 50,
      EPSILON = 3602879701896397 / 2 ^ 55,
      TRUE_MEANS =
        [3602879701896397 / 2 ^ 54, 3602879701896397 / 2 ^ 53, 3602879701896397 / 2 ^ 52,
         5404319552844595 / 2 ^ 54, 5404319552844595 / 2 ^ 53]\<rparr>"

text \<open>The exceptions the interpreter can raise in the modelled functions.\<close>

datatype error = ValueError | IndexError | ZeroDivisionError

text \<open>
  The state of Python's \<^verbatim>\<open>random\<close> module is an unbounded supply of raw draws, one
  consumed by each call. \<^verbatim>\<open>random.random()\<close> returns a multiple of \<open>2\<^sup>-\<^sup>5\<^sup>3\<close> in
  \<open>[0, 1)\<close>; \<^verbatim>\<open>random.randint(a, b)\<close> raises \<^verbatim>\<open>ValueError\<close> on an empty range and
  returns an integer of \<open>[a, b]\<close> otherwise. Every theorem below quantifies over the
  whole supply, so nothing depends on how the draws are distributed.
\<close>

type_synonym rng = "nat \<Rightarrow> nat"

definition advance :: "rng \<Rightarrow> rng" where
  "advance g = (\<lambda>k. g (Suc k))"

definition random_random :: "rng \<Rightarrow> real \<times> rng" where
  "random_random g = (real (g 0 mod 2 ^ 53) / 2 ^ 53, advance g)"

definition random_randint :: "int \<Rightarrow> int \<Rightarrow> rng \<Rightarrow> error + (int \<times> rng)" where
  "random_randint a b g =
     (if b < a then Inl ValueError
      else Inr (a + int (g 0) mod (b - a + 1), advance g))"

text \<open>
  \<^verbatim>\<open>pull_arm\<close> (lines 36-38): the draw is made first, then \<^verbatim>\<open>TRUE_MEANS[arm_index]\<close>
  is read, which raises \<^verbatim>\<open>IndexError\<close> past the end of the list. Arm indices are never
  negative in this program, so they are naturals.
\<close>

definition pull_arm :: "config \<Rightarrow> nat \<Rightarrow> rng \<Rightarrow> error + (nat \<times> rng)" where
  "pull_arm c arm_index g =
     (case random_random g of
        (u, g') \<Rightarrow>
          if arm_index < length (TRUE_MEANS c)
          then Inr (if u < TRUE_MEANS c ! arm_index then 1 else 0, g')
          else Inl IndexError)"

section \<open>List primitives of the interpreter\<close>

text \<open>\<^verbatim>\<open>max(xs)\<close> raises on an empty list; \<^verbatim>\<open>xs.index(v)\<close> returns the first
  position holding \<open>v\<close> and raises when there is none.\<close>

fun max_py :: "real list \<Rightarrow> error + real" where
  "max_py [] = Inl ValueError"
| "max_py (x # xs) = Inr (foldl max x xs)"

fun index_py :: "real list \<Rightarrow> real \<Rightarrow> error + nat" where
  "index_py [] v = Inl ValueError"
| "index_py (x # xs) v =
     (if x = v then Inr 0
      else (case index_py xs v of Inl e \<Rightarrow> Inl e | Inr i \<Rightarrow> Inr (Suc i)))"

text \<open>The expression \<^verbatim>\<open>xs.index(max(xs))\<close> of lines 55 and 86.\<close>

definition index_of_max :: "real list \<Rightarrow> error + nat" where
  "index_of_max xs = (case max_py xs of Inl e \<Rightarrow> Inl e | Inr m \<Rightarrow> index_py xs m)"

text \<open>A list comprehension whose element expression can raise.\<close>

fun comprehension :: "('a \<Rightarrow> error + 'b) \<Rightarrow> 'a list \<Rightarrow> error + 'b list" where
  "comprehension f [] = Inr []"
| "comprehension f (x # xs) =
     (case f x of
        Inl e \<Rightarrow> Inl e
      | Inr y \<Rightarrow> (case comprehension f xs of Inl e \<Rightarrow> Inl e | Inr ys \<Rightarrow> Inr (y # ys)))"

text \<open>A \<^verbatim>\<open>for step in range(n)\<close> loop whose body can raise: the state after \<open>n\<close>
  iterations is the body at index \<open>n - 1\<close> applied to the state after \<open>n - 1\<close>.\<close>

primrec run_steps :: "(nat \<Rightarrow> 's \<Rightarrow> error + 's) \<Rightarrow> nat \<Rightarrow> 's \<Rightarrow> error + 's" where
  "run_steps body 0 s = Inr s"
| "run_steps body (Suc n) s =
     (case run_steps body n s of Inl e \<Rightarrow> Inl e | Inr s' \<Rightarrow> body n s')"

section \<open>The learning policies\<close>

text \<open>
  The local variables of \<^verbatim>\<open>run_epsilon_greedy\<close> and \<^verbatim>\<open>run_ucb\<close> (lines 45-48 and
  71-74), with the random source. The field \<open>vals\<close> is the source's list \<^verbatim>\<open>values\<close>.
\<close>

record bandit =
  counts :: "nat list"
  vals :: "real list"
  total_reward :: nat
  rewards :: "real list"
  gen :: rng

definition init_state :: "config \<Rightarrow> rng \<Rightarrow> bandit" where
  "init_state c g =
     \<lparr>counts = replicate (nat (NUM_ARMS c)) 0, vals = replicate (nat (NUM_ARMS c)) 0,
      total_reward = 0, rewards = [], gen = g\<rparr>"

text \<open>Lines 52-55: explore on a draw below \<open>epsilon\<close>, else the first index of the
  maximum estimate.\<close>

definition eg_select :: "config \<Rightarrow> real \<Rightarrow> nat \<Rightarrow> bandit \<Rightarrow> error + (nat \<times> rng)" where
  "eg_select c epsilon step st =
     (case random_random (gen st) of
        (u, g1) \<Rightarrow>
          if u < epsilon
          then (case random_randint 0 (NUM_ARMS c - 1) g1 of
                  Inl e \<Rightarrow> Inl e
                | Inr (r, g2) \<Rightarrow> Inr (nat r, g2))
          else (case index_of_max (vals st) of
                  Inl e \<Rightarrow> Inl e
                | Inr arm \<Rightarrow> Inr (arm, g1)))"

text \<open>Line 83, for one arm: both list reads, the division, \<^verbatim>\<open>math.sqrt\<close> (which
  raises on a negative argument) and the sum.\<close>

definition ucb_score :: "bandit \<Rightarrow> nat \<Rightarrow> nat \<Rightarrow> error + real" where
  "ucb_score st step a =
     (if length (vals st) \<le> a \<or> length (counts st) \<le> a then Inl IndexError
      else if counts st ! a = 0 then Inl ZeroDivisionError
      else if 2 * ln (real (step + 1)) / real (counts st ! a) < 0 then Inl ValueError
      else Inr (vals st ! a + sqrt (2 * ln (real (step + 1)) / real (counts st ! a))))"

text \<open>Lines 78-86: the warm-up pulls arm \<open>step\<close>; afterwards the first index of the
  maximum score.\<close>

definition ucb_select :: "config \<Rightarrow> nat \<Rightarrow> bandit \<Rightarrow> error + (nat \<times> rng)" where
  "ucb_select c step st =
     (if int step < NUM_ARMS c then Inr (step, gen st)
      else (case comprehension (ucb_score st step) [0..<nat (NUM_ARMS c)] of
              Inl e \<Rightarrow> Inl e
            | Inr ucb_scores \<Rightarrow>
                (case index_of_max ucb_scores of
                   Inl e \<Rightarrow> Inl e
                 | Inr arm \<Rightarrow> Inr (arm, gen st))))"

text \<open>Lines 58-62 and 89-92, the same in both policies: the incremental mean and the
  running average. \<^verbatim>\<open>counts[arm] += 1\<close> raises past the end of the list; the divisor
  \<^verbatim>\<open>counts[arm]\<close> has just been incremented and \<^verbatim>\<open>step + 1\<close> is positive.\<close>

definition update_estimates :: "nat \<Rightarrow> nat \<Rightarrow> nat \<Rightarrow> bandit \<Rightarrow> error + bandit" where
  "update_estimates arm reward step st =
     (if length (counts st) \<le> arm \<or> length (vals st) \<le> arm then Inl IndexError
      else
        let cs = (counts st)[arm := counts st ! arm + 1];
            vs = (vals st)[arm := vals st ! arm + (real reward - vals st ! arm) / real (cs ! arm)];
            tr = total_reward st + reward
        in Inr (st\<lparr>counts := cs, vals := vs, total_reward := tr,
                    rewards := rewards st @ [real tr / real (step + 1)]\<rparr>))"

text \<open>One iteration of the loop of a learning policy (the bodies of the loops of lines
  50-62 and 76-92): the selection rule \<open>sel\<close> of the policy, then \<^verbatim>\<open>pull_arm\<close>, then the
  update. The two loops differ in the selection only.\<close>

definition learn_step ::
  "config \<Rightarrow> (nat \<Rightarrow> bandit \<Rightarrow> error + (nat \<times> rng)) \<Rightarrow> nat \<Rightarrow> bandit \<Rightarrow> error + bandit" where
  "learn_step c sel step st =
     (case sel step st of
        Inl e \<Rightarrow> Inl e
      | Inr (arm, g1) \<Rightarrow>
          (case pull_arm c arm g1 of
             Inl e \<Rightarrow> Inl e
           | Inr (reward, g2) \<Rightarrow> update_estimates arm reward step (st\<lparr>gen := g2\<rparr>)))"

text \<open>The two runs return \<^verbatim>\<open>rewards, values\<close>; the model also returns the random
  source, which the next run continues from.\<close>

definition run_epsilon_greedy ::
  "config \<Rightarrow> real \<Rightarrow> rng \<Rightarrow> error + ((real list \<times> real list) \<times> rng)" where
  "run_epsilon_greedy c epsilon g =
     (case run_steps (learn_step c (eg_select c epsilon)) (nat (NUM_STEPS c)) (init_state c g) of
        Inl e \<Rightarrow> Inl e
      | Inr st \<Rightarrow> Inr ((rewards st, vals st), gen st))"

definition run_ucb :: "config \<Rightarrow> rng \<Rightarrow> error + ((real list \<times> real list) \<times> rng)" where
  "run_ucb c g =
     (case run_steps (learn_step c (ucb_select c)) (nat (NUM_STEPS c)) (init_state c g) of
        Inl e \<Rightarrow> Inl e
      | Inr st \<Rightarrow> Inr ((rewards st, vals st), gen st))"

section \<open>The random baseline\<close>

record baseline =
  b_total_reward :: nat
  b_rewards :: "real list"
  b_gen :: rng

definition random_select :: "config \<Rightarrow> nat \<Rightarrow> baseline \<Rightarrow> error + (nat \<times> rng)" where
  "random_select c step st =
     (case random_randint 0 (NUM_ARMS c - 1) (b_gen st) of
        Inl e \<Rightarrow> Inl e
      | Inr (r, g1) \<Rightarrow> Inr (nat r, g1))"

definition random_step :: "config \<Rightarrow> nat \<Rightarrow> baseline \<Rightarrow> error + baseline" where
  "random_step c step st =
     (case random_select c step st of
        Inl e \<Rightarrow> Inl e
      | Inr (arm, g1) \<Rightarrow>
          (case pull_arm c arm g1 of
             Inl e \<Rightarrow> Inl e
           | Inr (reward, g2) \<Rightarrow>
               let tr = b_total_reward st + reward
               in Inr \<lparr>b_total_reward = tr,
                       b_rewards = b_rewards st @ [real tr / real (step + 1)],
                       b_gen = g2\<rparr>))"

definition run_random :: "config \<Rightarrow> rng \<Rightarrow> error + (real list \<times> rng)" where
  "run_random c g =
     (case run_steps (random_step c) (nat (NUM_STEPS c))
             \<lparr>b_total_reward = 0, b_rewards = [], b_gen = g\<rparr> of
        Inl e \<Rightarrow> Inl e
      | Inr st \<Rightarrow> Inr (b_rewards st, b_gen st))"

section \<open>Averaging over runs\<close>

text \<open>The argument \<^verbatim>\<open>strategy_fn\<close> of \<^verbatim>\<open>average_runs\<close> is one of the three run
  functions; line 116 compares it with \<^verbatim>\<open>run_random\<close>.\<close>

datatype strategy = Epsilon_greedy | Ucb | Random_baseline

record collected =
  all_rewards :: "real list list"
  all_final_values :: "real list list"
  c_gen :: rng

text \<open>Lines 115-122, one iteration. \<^verbatim>\<open>strategy_fn()\<close> is called without arguments, so
  \<^verbatim>\<open>run_epsilon_greedy\<close> runs with its default \<^verbatim>\<open>epsilon=EPSILON\<close>.\<close>

definition collect_step :: "config \<Rightarrow> strategy \<Rightarrow> nat \<Rightarrow> collected \<Rightarrow> error + collected" where
  "collect_step c strategy_fn i col =
     (case strategy_fn of
        Random_baseline \<Rightarrow>
          (case run_random c (c_gen col) of
             Inl e \<Rightarrow> Inl e
           | Inr (r, g') \<Rightarrow> Inr (col\<lparr>all_rewards := all_rewards col @ [r], c_gen := g'\<rparr>))
      | Epsilon_greedy \<Rightarrow>
          (case run_epsilon_greedy c (EPSILON c) (c_gen col) of
             Inl e \<Rightarrow> Inl e
           | Inr ((r, v), g') \<Rightarrow>
               Inr \<lparr>all_rewards = all_rewards col @ [r],
                    all_final_values = all_final_values col @ [v], c_gen = g'\<rparr>)
      | Ucb \<Rightarrow>
          (case run_ucb c (c_gen col) of
             Inl e \<Rightarrow> Inl e
           | Inr ((r, v), g') \<Rightarrow>
               Inr \<lparr>all_rewards = all_rewards col @ [r],
                    all_final_values = all_final_values col @ [v], c_gen = g'\<rparr>))"

text \<open>The element \<^verbatim>\<open>xss[run][j]\<close>, with both index checks.\<close>

definition cell :: "real list list \<Rightarrow> nat \<Rightarrow> nat \<Rightarrow> error + real" where
  "cell xss j run =
     (if length xss \<le> run then Inl IndexError
      else if length (xss ! run) \<le> j then Inl IndexError
      else Inr (xss ! run ! j))"

text \<open>\<^verbatim>\<open>sum(xss[run][j] for run in range(runs)) / runs\<close> (lines 125 and 129): the sum
  is evaluated first, then the division, which raises for \<^verbatim>\<open>runs == 0\<close>.\<close>

definition column_average :: "real list list \<Rightarrow> int \<Rightarrow> nat \<Rightarrow> error + real" where
  "column_average xss runs j =
     (case comprehension (cell xss j) [0..<nat runs] of
        Inl e \<Rightarrow> Inl e
      | Inr ys \<Rightarrow>
          if runs = 0 then Inl ZeroDivisionError else Inr (sum_list ys / real_of_int runs))"

definition average_runs ::
  "config \<Rightarrow> strategy \<Rightarrow> int \<Rightarrow> rng \<Rightarrow> error + ((real list \<times> real list option) \<times> rng)" where
  "average_runs c strategy_fn runs g =
     (case run_steps (collect_step c strategy_fn) (nat runs)
             \<lparr>all_rewards = [], all_final_values = [], c_gen = g\<rparr> of
        Inl e \<Rightarrow> Inl e
      | Inr col \<Rightarrow>
          (case comprehension (column_average (all_rewards col) runs) [0..<nat (NUM_STEPS c)] of
             Inl e \<Rightarrow> Inl e
           | Inr avg \<Rightarrow>
               if all_final_values col \<noteq> []
               then (case comprehension (column_average (all_final_values col) runs)
                            [0..<nat (NUM_ARMS c)] of
                       Inl e \<Rightarrow> Inl e
                     | Inr avg_values \<Rightarrow> Inr ((avg, Some avg_values), c_gen col))
               else Inr ((avg, None), c_gen col)))"

section \<open>Observations of a run\<close>

text \<open>
  The arm chosen and the reward drawn by the iteration that starts in state \<open>st\<close>: the
  first two stages of \<open>learn_step\<close> and of \<open>random_step\<close>, without the update.
\<close>

definition pull_of ::
  "config \<Rightarrow> (nat \<Rightarrow> 's \<Rightarrow> error + (nat \<times> rng)) \<Rightarrow> nat \<Rightarrow> 's \<Rightarrow> error + (nat \<times> nat)" where
  "pull_of c sel step st =
     (case sel step st of
        Inl e \<Rightarrow> Inl e
      | Inr (arm, g1) \<Rightarrow>
          (case pull_arm c arm g1 of Inl e \<Rightarrow> Inl e | Inr (reward, g2) \<Rightarrow> Inr (arm, reward)))"

text \<open>The pairs (arm, reward) of the first \<open>n\<close> iterations of a loop, in order: the
  pull of iteration \<open>k\<close> is observed in the state the loop has reached after \<open>k\<close> steps.\<close>

primrec pulls ::
  "(nat \<Rightarrow> 's \<Rightarrow> error + (nat \<times> nat)) \<Rightarrow> (nat \<Rightarrow> 's \<Rightarrow> error + 's) \<Rightarrow> nat \<Rightarrow> 's
     \<Rightarrow> error + (nat \<times> nat) list" where
  "pulls obs body 0 s = Inr []"
| "pulls obs body (Suc n) s =
     (case pulls obs body n s of
        Inl e \<Rightarrow> Inl e
      | Inr ps \<Rightarrow>
          (case run_steps body n s of
             Inl e \<Rightarrow> Inl e
           | Inr st \<Rightarrow> (case obs n st of Inl e \<Rightarrow> Inl e | Inr p \<Rightarrow> Inr (ps @ [p]))))"

text \<open>The rewards a list of pulls holds for arm \<open>a\<close>, in order.\<close>

definition rewards_of :: "nat \<Rightarrow> (nat \<times> nat) list \<Rightarrow> nat list" where
  "rewards_of a ps = map snd (filter (\<lambda>p. fst p = a) ps)"

text \<open>The pulls of the whole run of each policy, from the random source \<open>g\<close>.\<close>

definition eg_pulls :: "config \<Rightarrow> real \<Rightarrow> rng \<Rightarrow> error + (nat \<times> nat) list" where
  "eg_pulls c epsilon g =
     pulls (pull_of c (eg_select c epsilon)) (learn_step c (eg_select c epsilon))
       (nat (NUM_STEPS c)) (init_state c g)"

definition ucb_pulls :: "config \<Rightarrow> rng \<Rightarrow> error + (nat \<times> nat) list" where
  "ucb_pulls c g =
     pulls (pull_of c (ucb_select c)) (learn_step c (ucb_select c))
       (nat (NUM_STEPS c)) (init_state c g)"

definition random_pulls :: "config \<Rightarrow> rng \<Rightarrow> error + (nat \<times> nat) list" where
  "random_pulls c g =
     pulls (pull_of c (random_select c)) (random_step c)
       (nat (NUM_STEPS c)) \<lparr>b_total_reward = 0, b_rewards = [], b_gen = g\<rparr>"

text \<open>The cumulative average of the specification: the total reward earned in steps
  \<open>0..t\<close>, divided by \<open>t + 1\<close>.\<close>

definition cumulative_average :: "(nat \<times> nat) list \<Rightarrow> nat \<Rightarrow> real" where
  "cumulative_average ps t = real (sum_list (map snd (take (Suc t) ps))) / real (t + 1)"

text \<open>The call \<^verbatim>\<open>strategy_fn()\<close> of lines 117 and 120 from the random source \<open>g\<close>: the
  trajectory of the run and, for a learning policy, its final estimates.\<close>

definition single_run :: "config \<Rightarrow> strategy \<Rightarrow> rng \<Rightarrow> error + (real list \<times> real list option)" where
  "single_run c strategy_fn g =
     (case strategy_fn of
        Random_baseline \<Rightarrow>
          (case run_random c g of Inl e \<Rightarrow> Inl e | Inr (r, g') \<Rightarrow> Inr (r, None))
      | Epsilon_greedy \<Rightarrow>
          (case run_epsilon_greedy c (EPSILON c) g of
             Inl e \<Rightarrow> Inl e
           | Inr ((r, v), g') \<Rightarrow> Inr (r, Some v))
      | Ucb \<Rightarrow>
          (case run_ucb c g of Inl e \<Rightarrow> Inl e | Inr ((r, v), g') \<Rightarrow> Inr (r, Some v)))"

text \<open>Run number \<open>i\<close> of \<^verbatim>\<open>average_runs\<close>: the strategy's run from the random source
  that the first \<open>i\<close> runs have left.\<close>

definition nth_run ::
  "config \<Rightarrow> strategy \<Rightarrow> rng \<Rightarrow> nat \<Rightarrow> error + (real list \<times> real list option)" where
  "nth_run c strategy_fn g i =
     (case run_steps (collect_step c strategy_fn) i
             \<lparr>all_rewards = [], all_final_values = [], c_gen = g\<rparr> of
        Inl e \<Rightarrow> Inl e
      | Inr col \<Rightarrow> single_run c strategy_fn (c_gen col))"

text \<open>The score of the specification for arm \<open>a\<close> at step index \<open>step\<close>:
  \<^verbatim>\<open>mean[a] + sqrt(2 * ln(step_index + 1) / count[a])\<close>.\<close>

definition confidence_bound :: "bandit \<Rightarrow> nat \<Rightarrow> nat \<Rightarrow> real" where
  "confidence_bound st step a =
     vals st ! a + sqrt (2 * ln (real (step + 1)) / real (counts st ! a))"

section \<open>Small configurations\<close>

text \<open>Concrete configurations on which the runs are evaluated step by step.\<close>

definition two_arms :: config where
  "two_arms =
     \<lparr>NUM_ARMS = 2, NUM_STEPS = 3, NUM_RUNS = 2, EPSILON = 1 / 10, TRUE_MEANS = [1 / 2, 0]\<rparr>"

definition one_arm :: config where
  "one_arm =
     \<lparr>NUM_ARMS = 1, NUM_STEPS = 2, NUM_RUNS = 1, EPSILON = 0, TRUE_MEANS = [1 / 2]\<rparr>"

definition short_run :: config where
  "short_run =
     \<lparr>NUM_ARMS = 2, NUM_STEPS = 1, NUM_RUNS = 1, EPSILON = 1 / 10, TRUE_MEANS = [1 / 2, 0]\<rparr>"

text \<open>The configuration \<open>one_arm\<close> with an exploration rate outside \<open>[0, 1]\<close>.\<close>

definition bad_epsilon :: config where
  "bad_epsilon = one_arm\<lparr>EPSILON := 2\<rparr>"

section \<open>Basic facts\<close>

text \<open>The constants of the source satisfy the conditions under which the runs and the
  aggregator are shown to return.\<close>

lemma default_config_valid:
  "1 \<le> NUM_ARMS default_config
   \<and> NUM_ARMS default_config \<le> int (length (TRUE_MEANS default_config))
   \<and> 1 \<le> NUM_STEPS default_config \<and> 1 \<le> NUM_RUNS default_config
   \<and> 0 \<le> EPSILON default_config \<and> EPSILON default_config \<le> 1"
  by (simp add: default_config_def)

lemma run_steps_Suc_Inr:
  "run_steps body (Suc n) s = Inr s' \<Longrightarrow> \<exists>m. run_steps body n s = Inr m \<and> body n m = Inr s'"
  by (simp split: sum.splits)

lemma foldl_max_ge: "x \<le> foldl max x (xs::real list)"
  by (induction xs arbitrary: x) (auto intro: order_trans[OF max.cobounded1])

lemma foldl_max_upper: "y \<in> set xs \<Longrightarrow> y \<le> foldl max x (xs::real list)"
proof (induction xs arbitrary: x)
  case Nil then show ?case by simp
next
  case (Cons z zs)
  show ?case
  proof (cases "y = z")
    case True
    have "z \<le> max x z" by simp
    also have "\<dots> \<le> foldl max (max x z) zs" by (rule foldl_max_ge)
    finally show ?thesis using True by simp
  next
    case False
    with Cons.prems have "y \<in> set zs" by simp
    then show ?thesis using Cons.IH by simp
  qed
qed

lemma foldl_max_mem: "foldl max x (xs::real list) \<in> set (x # xs)"
proof (induction xs arbitrary: x)
  case Nil then show ?case by simp
next
  case (Cons z zs)
  have "foldl max (max x z) zs \<in> set (max x z # zs)" by (rule Cons.IH)
  moreover have "max x z = x \<or> max x z = z" by (simp add: max_def)
  ultimately show ?case by auto
qed

lemma max_py_Inr:
  "xs \<noteq> [] \<Longrightarrow> \<exists>m. max_py xs = Inr m \<and> m \<in> set xs \<and> (\<forall>y\<in>set xs. y \<le> m)"
proof (cases xs)
  case Nil then show "xs \<noteq> [] \<Longrightarrow> ?thesis" by simp
next
  case (Cons x zs)
  have "foldl max x zs \<in> set (x # zs)" by (rule foldl_max_mem)
  moreover have "\<forall>y\<in>set (x # zs). y \<le> foldl max x zs"
    using foldl_max_ge[of x zs] foldl_max_upper[of _ zs x] by auto
  ultimately show ?thesis using Cons by simp
qed

lemma index_py_Inr:
  "v \<in> set xs \<Longrightarrow> \<exists>i. index_py xs v = Inr i \<and> i < length xs \<and> xs ! i = v \<and> (\<forall>j<i. xs ! j \<noteq> v)"
proof (induction xs)
  case Nil then show ?case by simp
next
  case (Cons x xs)
  show ?case
  proof (cases "x = v")
    case True then show ?thesis by simp
  next
    case False
    with Cons.prems have "v \<in> set xs" by simp
    from Cons.IH[OF this] obtain i where i: "index_py xs v = Inr i" "i < length xs" "xs ! i = v"
      "\<forall>j<i. xs ! j \<noteq> v" by blast
    have "\<forall>j<Suc i. (x # xs) ! j \<noteq> v"
      using False i(4) by (auto simp: nth_Cons split: nat.splits)
    then show ?thesis using False i by simp
  qed
qed

lemma index_of_max_Inr:
  assumes "xs \<noteq> []"
  shows "\<exists>i. index_of_max xs = Inr i \<and> i < length xs \<and> (\<forall>j<length xs. xs ! j \<le> xs ! i)
            \<and> (\<forall>j<i. xs ! j < xs ! i)"
proof -
  from max_py_Inr[OF assms] obtain m where m: "max_py xs = Inr m" "m \<in> set xs" "\<forall>y\<in>set xs. y \<le> m"
    by blast
  from index_py_Inr[OF m(2)] obtain i where i: "index_py xs m = Inr i" "i < length xs" "xs ! i = m"
    "\<forall>j<i. xs ! j \<noteq> m" by blast
  have a: "\<forall>j<length xs. xs ! j \<le> xs ! i" using m(3) i(3) by simp
  have "\<forall>j<i. xs ! j < xs ! i"
  proof (intro allI impI)
    fix j assume "j < i"
    then have "xs ! j \<noteq> m" "xs ! j \<le> m" using i(2,4) m(3) by auto
    then show "xs ! j < xs ! i" using i(3) by simp
  qed
  then show ?thesis using m(1) i(1,2) a by (simp add: index_of_max_def)
qed

lemma index_of_max_Nil: "index_of_max [] = Inl ValueError"
  by (simp add: index_of_max_def)

lemma comprehension_Inr:
  "comprehension f xs = Inr ys \<Longrightarrow> length ys = length xs \<and> (\<forall>i<length xs. f (xs ! i) = Inr (ys ! i))"
proof (induction xs arbitrary: ys)
  case Nil then show ?case by simp
next
  case (Cons x xs)
  from Cons.prems obtain y zs where y: "f x = Inr y" and zs: "comprehension f xs = Inr zs"
    and ys: "ys = y # zs" by (auto split: sum.splits)
  from Cons.IH[OF zs] show ?case using y ys by (auto simp: nth_Cons split: nat.splits)
qed

lemma comprehension_Inl:
  "comprehension f xs = Inl e \<Longrightarrow> \<exists>x\<in>set xs. f x = Inl e"
  by (induction xs) (auto split: sum.splits)

lemma comprehension_total:
  "(\<And>x. x \<in> set xs \<Longrightarrow> \<exists>y. f x = Inr y) \<Longrightarrow> \<exists>ys. comprehension f xs = Inr ys"
proof (induction xs)
  case Nil then show ?case by simp
next
  case (Cons x xs)
  from Cons.prems obtain y where "f x = Inr y" by auto
  moreover from Cons obtain zs where "comprehension f xs = Inr zs" by auto
  ultimately show ?case by simp
qed

section \<open>One step of a learning policy\<close>

lemma pull_arm_Inr:
  "pull_arm c arm g = Inr (reward, g') \<Longrightarrow>
     arm < length (TRUE_MEANS c) \<and> reward \<le> 1 \<and> g' = advance g"
  by (auto simp: pull_arm_def random_random_def split: if_splits)

lemma pull_arm_total:
  "arm < length (TRUE_MEANS c) \<Longrightarrow> \<exists>reward. pull_arm c arm g = Inr (reward, advance g)"
  by (simp add: pull_arm_def random_random_def)

lemma update_estimates_Inr:
  assumes "update_estimates arm reward step st = Inr st'"
  shows "arm < length (counts st)" and "arm < length (vals st)"
    and "counts st' = (counts st)[arm := counts st ! arm + 1]"
    and "vals st' = (vals st)[arm := vals st ! arm + (real reward - vals st ! arm) / real (counts st ! arm + 1)]"
    and "total_reward st' = total_reward st + reward"
    and "rewards st' = rewards st @ [real (total_reward st + reward) / real (step + 1)]"
    and "gen st' = gen st"
  using assms by (auto simp: update_estimates_def Let_def split: if_splits)

lemma update_estimates_total:
  "arm < length (counts st) \<Longrightarrow> arm < length (vals st) \<Longrightarrow>
     \<exists>st'. update_estimates arm reward step st = Inr st'"
  by (simp add: update_estimates_def Let_def)

lemma learn_step_Inr:
  assumes "learn_step c sel step st = Inr st'"
  shows "\<exists>arm reward g1 g2. sel step st = Inr (arm, g1) \<and> pull_arm c arm g1 = Inr (reward, g2)
           \<and> pull_of c sel step st = Inr (arm, reward)
           \<and> update_estimates arm reward step (st\<lparr>gen := g2\<rparr>) = Inr st'"
  using assms by (auto simp: learn_step_def pull_of_def split: sum.splits prod.splits)

section \<open>The invariant of a learning run\<close>

lemma rewards_of_snoc:
  "rewards_of a (ps @ [(arm, r)]) = rewards_of a ps @ (if arm = a then [r] else [])"
  by (simp add: rewards_of_def)

lemma rewards_of_Nil: "rewards_of a [] = []"
  by (simp add: rewards_of_def)

lemma incremental_mean_real:
  fixes S k r :: real
  assumes "0 < k"
  shows "S / k + (r - S / k) / (k + 1) = (S + r) / (k + 1)"
proof -
  have k: "k + 1 \<noteq> 0" "k \<noteq> 0" using assms by auto
  have "(S / k + (r - S / k) / (k + 1)) * (k + 1) = S / k * (k + 1) + (r - S / k)"
    using k by (simp add: distrib_right)
  also have "\<dots> = S + r"
    using k by (simp add: distrib_left)
  finally show ?thesis using k by (simp add: nonzero_eq_divide_eq)
qed

lemma incremental_mean:
  fixes rs :: "nat list"
  shows "real (sum_list rs) / real (length rs)
           + (real r - real (sum_list rs) / real (length rs)) / real (length rs + 1)
         = real (sum_list (rs @ [r])) / real (length (rs @ [r]))"
proof (cases "rs = []")
  case True then show ?thesis by simp
next
  case False
  then have "0 < real (length rs)" by simp
  from incremental_mean_real[OF this, of "real (sum_list rs)" "real r"]
  show ?thesis by (simp add: add.commute)
qed

lemma take_Suc_snoc_less: "t < length ps \<Longrightarrow> take (Suc t) (ps @ [p]) = take (Suc t) ps"
  by simp

lemma running_average_snoc:
  assumes "length ps = n"
  shows "map (\<lambda>t. real (sum_list (map snd (take (Suc t) (ps @ [p])))) / real (Suc t)) [0..<Suc n]
       = map (\<lambda>t. real (sum_list (map snd (take (Suc t) ps))) / real (Suc t)) [0..<n]
         @ [real (sum_list (map snd ps) + snd p) / real (n + 1)]"
  using assms by simp

lemma learn_run_invariant:
  assumes "run_steps (learn_step c sel) n (init_state c g) = Inr st"
  shows "\<exists>ps. pulls (pull_of c sel) (learn_step c sel) n (init_state c g) = Inr ps
           \<and> length ps = n
           \<and> length (counts st) = nat (NUM_ARMS c) \<and> length (vals st) = nat (NUM_ARMS c)
           \<and> (\<forall>a<nat (NUM_ARMS c). counts st ! a = length (rewards_of a ps)
                 \<and> vals st ! a = real (sum_list (rewards_of a ps)) / real (length (rewards_of a ps)))
           \<and> total_reward st = sum_list (map snd ps)
           \<and> rewards st = map (\<lambda>t. real (sum_list (map snd (take (Suc t) ps))) / real (Suc t)) [0..<n]
           \<and> (\<forall>p\<in>set ps. fst p < nat (NUM_ARMS c) \<and> fst p < length (TRUE_MEANS c) \<and> snd p \<le> 1)"
  using assms
proof (induction n arbitrary: st)
  case 0
  then have "st = init_state c g" by simp
  then show ?case by (simp add: init_state_def rewards_of_Nil)
next
  case (Suc n)
  from run_steps_Suc_Inr[OF Suc.prems] obtain m where
    m: "run_steps (learn_step c sel) n (init_state c g) = Inr m" and
    step: "learn_step c sel n m = Inr st" by blast
  from Suc.IH[OF m] obtain ps where
    ps: "pulls (pull_of c sel) (learn_step c sel) n (init_state c g) = Inr ps" and
    len: "length ps = n" and
    lc: "length (counts m) = nat (NUM_ARMS c)" and lv: "length (vals m) = nat (NUM_ARMS c)" and
    est: "\<forall>a<nat (NUM_ARMS c). counts m ! a = length (rewards_of a ps)
                 \<and> vals m ! a = real (sum_list (rewards_of a ps)) / real (length (rewards_of a ps))" and
    tot: "total_reward m = sum_list (map snd ps)" and
    rw: "rewards m = map (\<lambda>t. real (sum_list (map snd (take (Suc t) ps))) / real (Suc t)) [0..<n]" and
    rng: "\<forall>p\<in>set ps. fst p < nat (NUM_ARMS c) \<and> fst p < length (TRUE_MEANS c) \<and> snd p \<le> 1"
    by blast
  from learn_step_Inr[OF step] obtain arm reward g1 g2 where
    sel: "sel n m = Inr (arm, g1)" and pa: "pull_arm c arm g1 = Inr (reward, g2)" and
    po: "pull_of c sel n m = Inr (arm, reward)" and
    up: "update_estimates arm reward n (m\<lparr>gen := g2\<rparr>) = Inr st" by blast
  note u = update_estimates_Inr[OF up]
  let ?ps = "ps @ [(arm, reward)]"
  have arm: "arm < nat (NUM_ARMS c)" using u(1) lc by simp
  have p1: "pulls (pull_of c sel) (learn_step c sel) (Suc n) (init_state c g) = Inr ?ps"
    using ps m po by simp
  have p2: "length ?ps = Suc n" using len by simp
  have p3: "length (counts st) = nat (NUM_ARMS c)" "length (vals st) = nat (NUM_ARMS c)"
    using u(3,4) lc lv by simp_all
  have p4: "\<forall>a<nat (NUM_ARMS c). counts st ! a = length (rewards_of a ?ps)
                 \<and> vals st ! a = real (sum_list (rewards_of a ?ps)) / real (length (rewards_of a ?ps))"
  proof (intro allI impI)
    fix a assume a: "a < nat (NUM_ARMS c)"
    from est a have ea: "counts m ! a = length (rewards_of a ps)"
      "vals m ! a = real (sum_list (rewards_of a ps)) / real (length (rewards_of a ps))" by auto
    show "counts st ! a = length (rewards_of a ?ps)
                 \<and> vals st ! a = real (sum_list (rewards_of a ?ps)) / real (length (rewards_of a ?ps))"
    proof (cases "a = arm")
      case True
      have c1: "counts st ! a = length (rewards_of a ps) + 1"
        using u(3) True arm lc ea(1) by simp
      have "vals st ! a = vals m ! a + (real reward - vals m ! a) / real (counts m ! a + 1)"
        using u(4) True arm lv by simp
      also have "\<dots> = real (sum_list (rewards_of a ps @ [reward])) / real (length (rewards_of a ps @ [reward]))"
        unfolding ea by (rule incremental_mean)
      finally show ?thesis using c1 True by (simp add: rewards_of_snoc)
    next
      case False
      then show ?thesis using u(3,4) ea by (simp add: rewards_of_snoc)
    qed
  qed
  have p5: "total_reward st = sum_list (map snd ?ps)" using u(5) tot by simp
  have p6: "rewards st = map (\<lambda>t. real (sum_list (map snd (take (Suc t) ?ps))) / real (Suc t)) [0..<Suc n]"
    unfolding running_average_snoc[OF len] using u(6) rw tot by simp
  have p7: "\<forall>p\<in>set ?ps. fst p < nat (NUM_ARMS c) \<and> fst p < length (TRUE_MEANS c) \<and> snd p \<le> 1"
    using rng arm pull_arm_Inr[OF pa] by auto
  show ?case using p1 p2 p3 p4 p5 p6 p7 by blast
qed

lemma replicate_two: "replicate 2 x = [x, x]"
  by (simp add: numeral_2_eq_2)

lemma two_arms_ucb_run:
  "run_steps (learn_step two_arms (ucb_select two_arms)) (Suc (Suc 0)) (init_state two_arms (\<lambda>k. 0))
     = Inr \<lparr>counts = [1, 1], vals = [1, 0], total_reward = 1, rewards = [1, 1 / 2],
            gen = (\<lambda>k. 0)\<rparr>"
  by (simp add: replicate_two learn_step_def ucb_select_def two_arms_def init_state_def
      pull_arm_def random_random_def advance_def update_estimates_def Let_def)

section \<open>Loops and their observations\<close>

lemma run_steps_Inl:
  "run_steps body n s = Inl e \<Longrightarrow>
     \<exists>k st. k < n \<and> run_steps body k s = Inr st \<and> body k st = Inl e"
proof (induction n)
  case 0 then show ?case by simp
next
  case (Suc n)
  show ?case
  proof (cases "run_steps body n s")
    case (Inl e')
    with Suc.prems have "e' = e" by simp
    with Inl Suc.IH obtain k st where "k < n" "run_steps body k s = Inr st" "body k st = Inl e"
      by blast
    then show ?thesis using less_Suc_eq by blast
  next
    case (Inr st)
    with Suc.prems have "body n st = Inl e" by simp
    with Inr show ?thesis by blast
  qed
qed

lemma pulls_Suc_Inr:
  "pulls obs body (Suc n) s = Inr qs \<Longrightarrow>
     \<exists>ps st p. pulls obs body n s = Inr ps \<and> run_steps body n s = Inr st \<and> obs n st = Inr p
        \<and> qs = ps @ [p]"
  by (auto split: sum.splits)

lemma pulls_length: "pulls obs body n s = Inr ps \<Longrightarrow> length ps = n"
proof (induction n arbitrary: ps)
  case 0 then show ?case by simp
next
  case (Suc n)
  from pulls_Suc_Inr[OF Suc.prems] Suc.IH show ?case by auto
qed

lemma pulls_nth:
  "pulls obs body n s = Inr ps \<Longrightarrow> k < n \<Longrightarrow>
     \<exists>st. run_steps body k s = Inr st \<and> obs k st = Inr (ps ! k)"
proof (induction n arbitrary: ps)
  case 0 then show ?case by simp
next
  case (Suc n)
  from pulls_Suc_Inr[OF Suc.prems(1)] obtain qs st p where
    qs: "pulls obs body n s = Inr qs" and st: "run_steps body n s = Inr st"
    and p: "obs n st = Inr p" and ps: "ps = qs @ [p]" by blast
  have len: "length qs = n" using pulls_length[OF qs] .
  show ?case
  proof (cases "k < n")
    case True
    from Suc.IH[OF qs True] show ?thesis using ps len True by (simp add: nth_append)
  next
    case False
    with Suc.prems(2) have "k = n" by simp
    then show ?thesis using st p ps len by (simp add: nth_append)
  qed
qed

section \<open>UCB1: warm-up and scores\<close>

lemma ucb_select_warm_up: "int t < NUM_ARMS c \<Longrightarrow> ucb_select c t st = Inr (t, gen st)"
  by (simp add: ucb_select_def)

lemma ucb_pull_warm_up:
  "int t < NUM_ARMS c \<Longrightarrow> pull_of c (ucb_select c) t st = Inr p \<Longrightarrow> fst p = t"
  by (auto simp: pull_of_def ucb_select_warm_up split: sum.splits)

lemma ucb_pulls_warm_up:
  assumes "pulls (pull_of c (ucb_select c)) (learn_step c (ucb_select c)) n (init_state c g) = Inr ps"
    and "k < n" and "int k < NUM_ARMS c"
  shows "fst (ps ! k) = k"
proof -
  from pulls_nth[OF assms(1,2)] obtain st where
    "pull_of c (ucb_select c) k st = Inr (ps ! k)" by blast
  from ucb_pull_warm_up[OF assms(3) this] show ?thesis .
qed

lemma rewards_of_nonempty:
  assumes "(a, r) \<in> set ps"
  shows "1 \<le> length (rewards_of a ps)"
proof -
  have "(a, r) \<in> set (filter (\<lambda>p. fst p = a) ps)" using assms by simp
  then have "0 < length (filter (\<lambda>p. fst p = a) ps)" by (rule length_pos_if_in_set)
  then have "Suc 0 \<le> length (filter (\<lambda>p. fst p = a) ps)" by (rule Suc_leI)
  then show ?thesis by (simp add: rewards_of_def del: length_greater_0_conv)
qed

lemma ucb_counts_positive:
  assumes run: "run_steps (learn_step c (ucb_select c)) t (init_state c g) = Inr st"
    and a: "a < nat (NUM_ARMS c)" and t: "a < t"
  shows "1 \<le> counts st ! a"
proof -
  from learn_run_invariant[OF run] obtain ps where
    ps: "pulls (pull_of c (ucb_select c)) (learn_step c (ucb_select c)) t (init_state c g) = Inr ps"
    and len: "length ps = t"
    and cnt: "\<forall>a<nat (NUM_ARMS c). counts st ! a = length (rewards_of a ps)
                 \<and> vals st ! a = real (sum_list (rewards_of a ps)) / real (length (rewards_of a ps))"
    by blast
  have "int a < NUM_ARMS c" using a by simp
  from ucb_pulls_warm_up[OF ps t this] have "fst (ps ! a) = a" .
  moreover have "ps ! a \<in> set ps" using t len by simp
  ultimately have "(a, snd (ps ! a)) \<in> set ps" by (metis prod.collapse)
  from rewards_of_nonempty[OF this] cnt a show ?thesis by simp
qed

lemma ucb_score_Inr:
  assumes "a < length (vals st)" "a < length (counts st)" "1 \<le> counts st ! a"
  shows "ucb_score st t a = Inr (vals st ! a + sqrt (2 * ln (real (t + 1)) / real (counts st ! a)))"
proof -
  have "0 \<le> ln (real (t + 1))" by simp
  then have "0 \<le> 2 * ln (real (t + 1)) / real (counts st ! a)" by simp
  then show ?thesis using assms by (simp add: ucb_score_def not_less[symmetric] del: not_less)
qed

lemma comprehension_map:
  "(\<And>x. x \<in> set xs \<Longrightarrow> f x = Inr (h x)) \<Longrightarrow> comprehension f xs = Inr (map h xs)"
  by (induction xs) simp_all

lemma ucb_scores_reached:
  assumes run: "run_steps (learn_step c (ucb_select c)) t (init_state c g) = Inr st"
    and t: "NUM_ARMS c \<le> int t"
  shows "comprehension (ucb_score st t) [0..<nat (NUM_ARMS c)]
           = Inr (map (confidence_bound st t) [0..<nat (NUM_ARMS c)])"
proof (rule comprehension_map)
  fix a assume "a \<in> set [0..<nat (NUM_ARMS c)]"
  then have a: "a < nat (NUM_ARMS c)" by simp
  then have "a < t" using t by linarith
  from ucb_counts_positive[OF run a this] have pos: "1 \<le> counts st ! a" .
  from learn_run_invariant[OF run] have
    "length (counts st) = nat (NUM_ARMS c)" "length (vals st) = nat (NUM_ARMS c)" by blast+
  with a have "a < length (vals st)" "a < length (counts st)" by simp_all
  from ucb_score_Inr[OF this pos] show "ucb_score st t a = Inr (confidence_bound st t a)"
    by (simp add: confidence_bound_def)
qed

lemma ucb_select_reached:
  assumes run: "run_steps (learn_step c (ucb_select c)) t (init_state c g) = Inr st"
    and n: "1 \<le> NUM_ARMS c" and t: "NUM_ARMS c \<le> int t"
  shows "\<exists>arm. ucb_select c t st = Inr (arm, gen st) \<and> arm < nat (NUM_ARMS c)
           \<and> (\<forall>a<nat (NUM_ARMS c). confidence_bound st t a \<le> confidence_bound st t arm)
           \<and> (\<forall>a<arm. confidence_bound st t a < confidence_bound st t arm)"
proof -
  let ?xs = "map (confidence_bound st t) [0..<nat (NUM_ARMS c)]"
  have ne: "?xs \<noteq> []" using n by simp
  from index_of_max_Inr[OF ne] obtain i where
    i: "index_of_max ?xs = Inr i" and il: "i < length ?xs"
    and mx: "\<forall>j<length ?xs. ?xs ! j \<le> ?xs ! i" and fst: "\<forall>j<i. ?xs ! j < ?xs ! i" by blast
  have il': "i < nat (NUM_ARMS c)" using il by simp
  have sel: "ucb_select c t st = Inr (i, gen st)"
    using t i ucb_scores_reached[OF run t] by (simp add: ucb_select_def)
  have a: "\<forall>a<nat (NUM_ARMS c). confidence_bound st t a \<le> confidence_bound st t i"
    using mx il' by simp
  have b: "\<forall>a<i. confidence_bound st t a < confidence_bound st t i"
  proof (intro allI impI)
    fix a assume ai: "a < i"
    then have "?xs ! a < ?xs ! i" using fst by blast
    moreover have "a < nat (NUM_ARMS c)" using ai il' by simp
    ultimately show "confidence_bound st t a < confidence_bound st t i" using il' by simp
  qed
  show ?thesis using sel il' a b by blast
qed

lemma learn_step_total:
  assumes "sel t st = Inr (arm, g1)" "arm < length (TRUE_MEANS c)"
    "arm < length (counts st)" "arm < length (vals st)"
  shows "\<exists>st'. learn_step c sel t st = Inr st'"
proof -
  from pull_arm_total[OF assms(2)] obtain reward where
    "pull_arm c arm g1 = Inr (reward, advance g1)" by blast
  moreover from update_estimates_total[of arm "st\<lparr>gen := advance g1\<rparr>" reward t] assms(3,4)
  obtain st' where "update_estimates arm reward t (st\<lparr>gen := advance g1\<rparr>) = Inr st'" by auto
  ultimately show ?thesis using assms(1) by (simp add: learn_step_def)
qed

lemma learn_run_total:
  assumes valid: "NUM_ARMS c \<le> int (length (TRUE_MEANS c))"
    and sel: "\<And>t st. t < n \<Longrightarrow> run_steps (learn_step c sel) t (init_state c g) = Inr st \<Longrightarrow>
               \<exists>arm g1. sel t st = Inr (arm, g1) \<and> arm < nat (NUM_ARMS c)"
  shows "\<exists>st. run_steps (learn_step c sel) n (init_state c g) = Inr st"
  using sel
proof (induction n)
  case 0 then show ?case by simp
next
  case (Suc n)
  have "\<exists>st. run_steps (learn_step c sel) n (init_state c g) = Inr st"
    by (rule Suc.IH) (use Suc.prems in auto)
  then obtain st where st: "run_steps (learn_step c sel) n (init_state c g) = Inr st" by blast
  from Suc.prems[OF _ st] obtain arm g1 where
    s: "sel n st = Inr (arm, g1)" and arm: "arm < nat (NUM_ARMS c)" by auto
  from learn_run_invariant[OF st] have
    l: "length (counts st) = nat (NUM_ARMS c)" "length (vals st) = nat (NUM_ARMS c)" by blast+
  have "arm < length (TRUE_MEANS c)" using arm valid by linarith
  from learn_step_total[of sel n st arm g1 c] s this arm l
  obtain st' where "learn_step c sel n st = Inr st'"
    by auto
  then show ?case using st by simp
qed

lemma ucb_run_total:
  assumes "1 \<le> NUM_ARMS c" "NUM_ARMS c \<le> int (length (TRUE_MEANS c))"
  shows "\<exists>st. run_steps (learn_step c (ucb_select c)) n (init_state c g) = Inr st"
proof (rule learn_run_total[OF assms(2)])
  fix t st
  assume st: "run_steps (learn_step c (ucb_select c)) t (init_state c g) = Inr st"
  show "\<exists>arm g1. ucb_select c t st = Inr (arm, g1) \<and> arm < nat (NUM_ARMS c)"
  proof (cases "int t < NUM_ARMS c")
    case True
    then show ?thesis by (auto simp: ucb_select_warm_up)
  next
    case False
    then have "NUM_ARMS c \<le> int t" by simp
    from ucb_select_reached[OF st assms(1) this] show ?thesis by blast
  qed
qed

lemma ucb_scores_positive_counts:
  assumes lv: "nat (NUM_ARMS c) \<le> length (vals st)" and lc: "nat (NUM_ARMS c) \<le> length (counts st)"
    and pos: "\<forall>a<nat (NUM_ARMS c). 1 \<le> counts st ! a"
  shows "comprehension (ucb_score st t) [0..<nat (NUM_ARMS c)]
           = Inr (map (confidence_bound st t) [0..<nat (NUM_ARMS c)])"
proof (rule comprehension_map)
  fix a assume "a \<in> set [0..<nat (NUM_ARMS c)]"
  then have a: "a < nat (NUM_ARMS c)" by simp
  with pos have p: "1 \<le> counts st ! a" by blast
  from a lv lc have "a < length (vals st)" "a < length (counts st)" by simp_all
  from ucb_score_Inr[OF this p] show "ucb_score st t a = Inr (confidence_bound st t a)"
    by (simp add: confidence_bound_def)
qed

lemma ucb_select_positive_counts:
  assumes n: "1 \<le> NUM_ARMS c" and t: "NUM_ARMS c \<le> int t"
    and lv: "nat (NUM_ARMS c) \<le> length (vals st)" and lc: "nat (NUM_ARMS c) \<le> length (counts st)"
    and pos: "\<forall>a<nat (NUM_ARMS c). 1 \<le> counts st ! a"
  shows "\<exists>arm. ucb_select c t st = Inr (arm, gen st) \<and> arm < nat (NUM_ARMS c)
           \<and> (\<forall>a<nat (NUM_ARMS c). confidence_bound st t a \<le> confidence_bound st t arm)
           \<and> (\<forall>a<arm. confidence_bound st t a < confidence_bound st t arm)"
proof -
  let ?xs = "map (confidence_bound st t) [0..<nat (NUM_ARMS c)]"
  have ne: "?xs \<noteq> []" using n by simp
  from index_of_max_Inr[OF ne] obtain i where
    i: "index_of_max ?xs = Inr i" and il: "i < length ?xs"
    and mx: "\<forall>j<length ?xs. ?xs ! j \<le> ?xs ! i" and fst: "\<forall>j<i. ?xs ! j < ?xs ! i" by blast
  have il': "i < nat (NUM_ARMS c)" using il by simp
  have sel: "ucb_select c t st = Inr (i, gen st)"
    using t i ucb_scores_positive_counts[OF lv lc pos, of t] by (simp add: ucb_select_def)
  have a: "\<forall>a<nat (NUM_ARMS c). confidence_bound st t a \<le> confidence_bound st t i"
    using mx il' by simp
  have b: "\<forall>a<i. confidence_bound st t a < confidence_bound st t i"
  proof (intro allI impI)
    fix a assume ai: "a < i"
    then have "?xs ! a < ?xs ! i" using fst by blast
    moreover have "a < nat (NUM_ARMS c)" using ai il' by simp
    ultimately show "confidence_bound st t a < confidence_bound st t i" using il' by simp
  qed
  show ?thesis using sel il' a b by blast
qed

lemma ucb_reached_counts:
  assumes run: "run_steps (learn_step c (ucb_select c)) t (init_state c g) = Inr s"
    and t: "NUM_ARMS c \<le> int t"
  shows "length (vals s) = nat (NUM_ARMS c) \<and> length (counts s) = nat (NUM_ARMS c)
           \<and> (\<forall>a<nat (NUM_ARMS c). 1 \<le> counts s ! a)"
proof -
  from learn_run_invariant[OF run] have
    l: "length (counts s) = nat (NUM_ARMS c)" "length (vals s) = nat (NUM_ARMS c)" by blast+
  have "\<forall>a<nat (NUM_ARMS c). 1 \<le> counts s ! a"
  proof (intro allI impI)
    fix a assume a: "a < nat (NUM_ARMS c)"
    then have "a < t" using t by linarith
    from ucb_counts_positive[OF run a this] show "1 \<le> counts s ! a" .
  qed
  with l show ?thesis by simp
qed

section \<open>The errors a step can raise\<close>

lemma index_py_Inl: "index_py xs v = Inl e \<Longrightarrow> e = ValueError"
  by (induction xs) (auto split: if_splits sum.splits)

lemma index_of_max_Inl: "index_of_max xs = Inl e \<Longrightarrow> e = ValueError"
  by (cases xs) (auto simp: index_of_max_def simp del: index_py.simps dest: index_py_Inl)

lemma pull_arm_Inl: "pull_arm c arm g = Inl e \<Longrightarrow> e = IndexError"
  by (auto simp: pull_arm_def random_random_def split: if_splits)

lemma update_estimates_Inl: "update_estimates arm reward step st = Inl e \<Longrightarrow> e = IndexError"
  by (auto simp: update_estimates_def Let_def split: if_splits)

lemma learn_step_Inl:
  "learn_step c sel t st = Inl e \<Longrightarrow> sel t st = Inl e \<or> e = IndexError"
  by (auto simp: learn_step_def split: sum.splits prod.splits
      dest: pull_arm_Inl update_estimates_Inl)

lemma ucb_select_no_zero_division:
  assumes run: "run_steps (learn_step c (ucb_select c)) t (init_state c g) = Inr st"
  shows "ucb_select c t st \<noteq> Inl ZeroDivisionError"
proof
  assume z: "ucb_select c t st = Inl ZeroDivisionError"
  then have t: "NUM_ARMS c \<le> int t" by (auto simp: ucb_select_def split: if_splits)
  from ucb_scores_reached[OF run t] z t show False
    by (auto simp: ucb_select_def split: sum.splits dest: index_of_max_Inl)
qed

lemma ucb_run_no_zero_division:
  "run_steps (learn_step c (ucb_select c)) n (init_state c g) \<noteq> Inl ZeroDivisionError"
proof
  assume "run_steps (learn_step c (ucb_select c)) n (init_state c g) = Inl ZeroDivisionError"
  from run_steps_Inl[OF this] obtain k st where
    st: "run_steps (learn_step c (ucb_select c)) k (init_state c g) = Inr st"
    and f: "learn_step c (ucb_select c) k st = Inl ZeroDivisionError" by blast
  from learn_step_Inl[OF f] have "ucb_select c k st = Inl ZeroDivisionError" by simp
  with ucb_select_no_zero_division[OF st] show False by simp
qed

lemma one_arm_ucb_run:
  "run_steps (learn_step one_arm (ucb_select one_arm)) (Suc 0) (init_state one_arm (\<lambda>k. 0))
     = Inr \<lparr>counts = [1], vals = [1], total_reward = 1, rewards = [1], gen = (\<lambda>k. 0)\<rparr>"
  by (simp add: learn_step_def ucb_select_def one_arm_def init_state_def
      pull_arm_def random_random_def advance_def update_estimates_def Let_def)

section \<open>Epsilon-Greedy: selection and the greedy run\<close>

lemma random_random_range:
  "0 \<le> fst (random_random g) \<and> fst (random_random g) < 1 \<and> snd (random_random g) = advance g"
proof -
  have "g 0 mod 2 ^ 53 < (2::nat) ^ 53" by simp
  then have "real (g 0 mod 2 ^ 53) < real ((2::nat) ^ 53)" by (simp only: of_nat_less_iff)
  then have "real (g 0 mod 2 ^ 53) / 2 ^ 53 < 1" by simp
  then show ?thesis by (simp add: random_random_def)
qed

lemma eg_select_unfold:
  "eg_select c epsilon t st =
     (if fst (random_random (gen st)) < epsilon
      then (case random_randint 0 (NUM_ARMS c - 1) (advance (gen st)) of
              Inl e \<Rightarrow> Inl e
            | Inr (r, g2) \<Rightarrow> Inr (nat r, g2))
      else (case index_of_max (vals st) of
              Inl e \<Rightarrow> Inl e
            | Inr arm \<Rightarrow> Inr (arm, advance (gen st))))"
  by (simp add: eg_select_def random_random_def)

lemma eg_select_exploit:
  assumes "epsilon \<le> 0 \<or> \<not> fst (random_random (gen st)) < epsilon" and "vals st \<noteq> []"
  shows "\<exists>arm. eg_select c epsilon t st = Inr (arm, advance (gen st)) \<and> arm < length (vals st)
           \<and> (\<forall>a<length (vals st). vals st ! a \<le> vals st ! arm)
           \<and> (\<forall>a<arm. vals st ! a < vals st ! arm)"
proof -
  have u: "\<not> fst (random_random (gen st)) < epsilon"
    using assms(1) random_random_range[of "gen st"] by auto
  from index_of_max_Inr[OF assms(2)] obtain i where
    i: "index_of_max (vals st) = Inr i" "i < length (vals st)"
       "\<forall>j<length (vals st). vals st ! j \<le> vals st ! i" "\<forall>j<i. vals st ! j < vals st ! i"
    by blast
  have "eg_select c epsilon t st = Inr (i, advance (gen st))"
    using u i(1) by (simp add: eg_select_unfold)
  with i show ?thesis by blast
qed

lemma eg_select_explore:
  assumes "fst (random_random (gen st)) < epsilon" and "1 \<le> NUM_ARMS c"
  shows "\<exists>arm. eg_select c epsilon t st = Inr (arm, advance (advance (gen st)))
           \<and> arm < nat (NUM_ARMS c)"
proof -
  let ?r = "int (advance (gen st) 0) mod NUM_ARMS c"
  have r: "0 \<le> ?r" "?r < NUM_ARMS c" using assms(2) by simp_all
  have "random_randint 0 (NUM_ARMS c - 1) (advance (gen st))
          = Inr (?r, advance (advance (gen st)))"
    using assms(2) by (simp add: random_randint_def)
  then have "eg_select c epsilon t st = Inr (nat ?r, advance (advance (gen st)))"
    using assms(1) by (simp add: eg_select_unfold)
  moreover have "nat ?r < nat (NUM_ARMS c)" using r by linarith
  ultimately show ?thesis by blast
qed

lemma eg_run_total:
  assumes n: "1 \<le> NUM_ARMS c" and valid: "NUM_ARMS c \<le> int (length (TRUE_MEANS c))"
  shows "\<exists>st. run_steps (learn_step c (eg_select c epsilon)) n (init_state c g) = Inr st"
proof (rule learn_run_total[OF valid])
  fix t st
  assume st: "run_steps (learn_step c (eg_select c epsilon)) t (init_state c g) = Inr st"
  from learn_run_invariant[OF st] have l: "length (vals st) = nat (NUM_ARMS c)" by blast
  show "\<exists>arm g1. eg_select c epsilon t st = Inr (arm, g1) \<and> arm < nat (NUM_ARMS c)"
  proof (cases "fst (random_random (gen st)) < epsilon")
    case True
    from eg_select_explore[OF True n] show ?thesis by blast
  next
    case False
    have "vals st \<noteq> []" using l n by auto
    from eg_select_exploit[OF _ this, of epsilon c t] False l show ?thesis by auto
  qed
qed

lemma mean_step_bounds:
  fixes v :: real and r k :: nat
  assumes "0 \<le> v" "v \<le> 1" "r \<le> 1"
  shows "0 \<le> v + (real r - v) / real (k + 1)" and "v + (real r - v) / real (k + 1) \<le> 1"
proof -
  have K: "0 < real (k + 1)" by simp
  have eq: "v + (real r - v) / real (k + 1) = (v * real k + real r) / real (k + 1)"
    using K by (simp add: field_simps)
  have "0 \<le> v * real k + real r" using assms(1) by simp
  then show "0 \<le> v + (real r - v) / real (k + 1)" unfolding eq using K by simp
  have "v * real k \<le> 1 * real k" using assms(2) by (intro mult_right_mono) simp_all
  moreover have "real r \<le> 1" using assms(3) by simp
  ultimately have "v * real k + real r \<le> real (k + 1)" by simp
  then show "v + (real r - v) / real (k + 1) \<le> 1" unfolding eq using K by simp
qed

lemma greedy_select_zero:
  assumes "vals st \<noteq> []" "0 \<le> vals st ! 0" "\<forall>a. 0 < a \<and> a < length (vals st) \<longrightarrow> vals st ! a = 0"
  shows "eg_select c 0 t st = Inr (0, advance (gen st))"
proof -
  from eg_select_exploit[OF _ assms(1), of 0 c t] obtain arm where
    sel: "eg_select c 0 t st = Inr (arm, advance (gen st))" and al: "arm < length (vals st)"
    and fst: "\<forall>a<arm. vals st ! a < vals st ! arm" by auto
  have "arm = 0"
  proof (rule ccontr)
    assume "arm \<noteq> 0"
    then have p: "0 < arm" by simp
    with fst have "vals st ! 0 < vals st ! arm" by blast
    moreover have "vals st ! arm = 0" using assms(3) p al by blast
    ultimately show False using assms(2) by simp
  qed
  with sel show ?thesis by simp
qed

lemma greedy_run_invariant:
  assumes n: "1 \<le> NUM_ARMS c" and tm: "TRUE_MEANS c \<noteq> []"
  shows "\<exists>st. run_steps (learn_step c (eg_select c 0)) t (init_state c g) = Inr st
           \<and> length (vals st) = nat (NUM_ARMS c) \<and> length (counts st) = nat (NUM_ARMS c)
           \<and> 0 \<le> vals st ! 0 \<and> vals st ! 0 \<le> 1
           \<and> (\<forall>a. 0 < a \<and> a < length (vals st) \<longrightarrow> vals st ! a = 0)"
proof (induction t)
  case 0
  have "0 < nat (NUM_ARMS c)" using n by simp
  then show ?case by (simp add: init_state_def)
next
  case (Suc t)
  then obtain st where st: "run_steps (learn_step c (eg_select c 0)) t (init_state c g) = Inr st"
    and lv: "length (vals st) = nat (NUM_ARMS c)" and lc: "length (counts st) = nat (NUM_ARMS c)"
    and lo: "0 \<le> vals st ! 0" and hi: "vals st ! 0 \<le> 1"
    and z: "\<forall>a. 0 < a \<and> a < length (vals st) \<longrightarrow> vals st ! a = 0" by blast
  have pos: "0 < nat (NUM_ARMS c)" using n by simp
  have ne: "vals st \<noteq> []" using lv pos by auto
  from greedy_select_zero[OF ne lo z] have sel: "eg_select c 0 t st = Inr (0, advance (gen st))" .
  have "0 < length (TRUE_MEANS c)" using tm by simp
  from learn_step_total[of "eg_select c 0" t st 0 "advance (gen st)" c] sel this lv lc pos
  obtain st' where st': "learn_step c (eg_select c 0) t st = Inr st'" by auto
  from learn_step_Inr[OF st'] sel obtain reward g2 where
    pa: "pull_arm c 0 (advance (gen st)) = Inr (reward, g2)"
    and up: "update_estimates 0 reward t (st\<lparr>gen := g2\<rparr>) = Inr st'" by auto
  note u = update_estimates_Inr[OF up]
  have r: "reward \<le> 1" using pull_arm_Inr[OF pa] by simp
  have v0: "vals st' ! 0 = vals st ! 0 + (real reward - vals st ! 0) / real (counts st ! 0 + 1)"
    using u(4) lv pos by simp
  have b: "0 \<le> vals st' ! 0" "vals st' ! 0 \<le> 1"
    unfolding v0 using mean_step_bounds[OF lo hi r] by simp_all
  have l': "length (vals st') = nat (NUM_ARMS c)" "length (counts st') = nat (NUM_ARMS c)"
    using u(3,4) lv lc by simp_all
  have z': "\<forall>a. 0 < a \<and> a < length (vals st') \<longrightarrow> vals st' ! a = 0"
    using u(4) z by simp
  have "run_steps (learn_step c (eg_select c 0)) (Suc t) (init_state c g) = Inr st'"
    using st st' by simp
  with l' b z' show ?case by blast
qed

lemma two_arms_greedy_run:
  "run_steps (learn_step two_arms (eg_select two_arms 0)) (Suc (Suc 0)) (init_state two_arms (\<lambda>k. 0))
     = Inr \<lparr>counts = [2, 0], vals = [1, 0], total_reward = 2, rewards = [1, 1],
            gen = (\<lambda>k. 0)\<rparr>"
  by (simp add: replicate_two learn_step_def eg_select_unfold index_of_max_def two_arms_def
      init_state_def pull_arm_def random_random_def advance_def update_estimates_def Let_def)

section \<open>The random baseline: invariant\<close>

lemma random_select_total:
  assumes "1 \<le> NUM_ARMS c"
  shows "\<exists>arm. random_select c t st = Inr (arm, advance (b_gen st)) \<and> arm < nat (NUM_ARMS c)"
proof -
  let ?r = "int (b_gen st 0) mod NUM_ARMS c"
  have r: "0 \<le> ?r" "?r < NUM_ARMS c" using assms by simp_all
  have "random_select c t st = Inr (nat ?r, advance (b_gen st))"
    using assms by (simp add: random_select_def random_randint_def)
  moreover have "nat ?r < nat (NUM_ARMS c)" using r by linarith
  ultimately show ?thesis by blast
qed

lemma random_step_Inr:
  assumes "random_step c t st = Inr st'"
  shows "\<exists>arm reward. pull_of c (random_select c) t st = Inr (arm, reward)
           \<and> b_total_reward st' = b_total_reward st + reward
           \<and> b_rewards st' = b_rewards st @ [real (b_total_reward st + reward) / real (t + 1)]"
  using assms
  by (auto simp: random_step_def pull_of_def Let_def split: sum.splits prod.splits)

lemma random_step_total:
  assumes "1 \<le> NUM_ARMS c" "NUM_ARMS c \<le> int (length (TRUE_MEANS c))"
  shows "\<exists>st'. random_step c t st = Inr st'"
proof -
  from random_select_total[OF assms(1), of t st] obtain arm where
    s: "random_select c t st = Inr (arm, advance (b_gen st))" and a: "arm < nat (NUM_ARMS c)"
    by blast
  have "arm < length (TRUE_MEANS c)" using a assms(2) by linarith
  from pull_arm_total[OF this, of "advance (b_gen st)"] s show ?thesis
    by (auto simp: random_step_def Let_def)
qed

lemma random_run_total:
  assumes "1 \<le> NUM_ARMS c" "NUM_ARMS c \<le> int (length (TRUE_MEANS c))"
  shows "\<exists>st. run_steps (random_step c) n s = Inr st"
proof (induction n)
  case 0 then show ?case by simp
next
  case (Suc n)
  then obtain st where "run_steps (random_step c) n s = Inr st" by blast
  with random_step_total[OF assms, of n st] show ?case by auto
qed

lemma random_run_invariant:
  assumes "run_steps (random_step c) n \<lparr>b_total_reward = 0, b_rewards = [], b_gen = g\<rparr> = Inr st"
  shows "\<exists>ps. pulls (pull_of c (random_select c)) (random_step c) n
                \<lparr>b_total_reward = 0, b_rewards = [], b_gen = g\<rparr> = Inr ps
           \<and> length ps = n
           \<and> b_total_reward st = sum_list (map snd ps)
           \<and> b_rewards st = map (\<lambda>t. real (sum_list (map snd (take (Suc t) ps))) / real (Suc t)) [0..<n]"
  using assms
proof (induction n arbitrary: st)
  case 0
  then show ?case by auto
next
  case (Suc n)
  let ?s = "\<lparr>b_total_reward = 0, b_rewards = [], b_gen = g\<rparr>"
  from run_steps_Suc_Inr[OF Suc.prems] obtain m where
    m: "run_steps (random_step c) n ?s = Inr m" and step: "random_step c n m = Inr st" by blast
  from Suc.IH[OF m] obtain ps where
    ps: "pulls (pull_of c (random_select c)) (random_step c) n ?s = Inr ps"
    and len: "length ps = n" and tot: "b_total_reward m = sum_list (map snd ps)"
    and rw: "b_rewards m = map (\<lambda>t. real (sum_list (map snd (take (Suc t) ps))) / real (Suc t)) [0..<n]"
    by blast
  from random_step_Inr[OF step] obtain arm reward where
    po: "pull_of c (random_select c) n m = Inr (arm, reward)"
    and t': "b_total_reward st = b_total_reward m + reward"
    and r': "b_rewards st = b_rewards m @ [real (b_total_reward m + reward) / real (n + 1)]"
    by blast
  let ?ps = "ps @ [(arm, reward)]"
  have p1: "pulls (pull_of c (random_select c)) (random_step c) (Suc n) ?s = Inr ?ps"
    using ps m po by simp
  have p2: "length ?ps = Suc n" using len by simp
  have p3: "b_total_reward st = sum_list (map snd ?ps)" using t' tot by simp
  have p4: "b_rewards st = map (\<lambda>t. real (sum_list (map snd (take (Suc t) ?ps))) / real (Suc t)) [0..<Suc n]"
    unfolding running_average_snoc[OF len] using r' rw tot by simp
  show ?case using p1 p2 p3 p4 by blast
qed

section \<open>Results of the three runs\<close>

lemma cumulative_trajectory:
  assumes "rs = map (\<lambda>t. real (sum_list (map snd (take (Suc t) ps))) / real (Suc t)) [0..<n]"
  shows "length rs = n \<and> (\<forall>t<n. rs ! t = cumulative_average ps t)"
  using assms by (simp add: cumulative_average_def)

lemma learn_trajectory:
  assumes "run_steps (learn_step c sel) n (init_state c g) = Inr st"
  shows "\<exists>ps. pulls (pull_of c sel) (learn_step c sel) n (init_state c g) = Inr ps
           \<and> length (rewards st) = n \<and> (\<forall>t<n. rewards st ! t = cumulative_average ps t)"
proof -
  from learn_run_invariant[OF assms] obtain ps where
    ps: "pulls (pull_of c sel) (learn_step c sel) n (init_state c g) = Inr ps"
    and rw: "rewards st = map (\<lambda>t. real (sum_list (map snd (take (Suc t) ps))) / real (Suc t)) [0..<n]"
    by blast
  from cumulative_trajectory[OF rw] ps show ?thesis by blast
qed

lemma random_trajectory:
  assumes "run_steps (random_step c) n \<lparr>b_total_reward = 0, b_rewards = [], b_gen = g\<rparr> = Inr st"
  shows "\<exists>ps. pulls (pull_of c (random_select c)) (random_step c) n
                \<lparr>b_total_reward = 0, b_rewards = [], b_gen = g\<rparr> = Inr ps
           \<and> length (b_rewards st) = n \<and> (\<forall>t<n. b_rewards st ! t = cumulative_average ps t)"
proof -
  from random_run_invariant[OF assms] obtain ps where
    ps: "pulls (pull_of c (random_select c)) (random_step c) n
                \<lparr>b_total_reward = 0, b_rewards = [], b_gen = g\<rparr> = Inr ps"
    and rw: "b_rewards st = map (\<lambda>t. real (sum_list (map snd (take (Suc t) ps))) / real (Suc t)) [0..<n]"
    by blast
  from cumulative_trajectory[OF rw] ps show ?thesis by blast
qed

lemma run_epsilon_greedy_Inr:
  "run_epsilon_greedy c epsilon g = Inr ((traj, vs), g') \<Longrightarrow>
     \<exists>st. run_steps (learn_step c (eg_select c epsilon)) (nat (NUM_STEPS c)) (init_state c g) = Inr st
        \<and> traj = rewards st \<and> vs = vals st \<and> g' = gen st"
  by (auto simp: run_epsilon_greedy_def split: sum.splits)

lemma run_ucb_Inr:
  "run_ucb c g = Inr ((traj, vs), g') \<Longrightarrow>
     \<exists>st. run_steps (learn_step c (ucb_select c)) (nat (NUM_STEPS c)) (init_state c g) = Inr st
        \<and> traj = rewards st \<and> vs = vals st \<and> g' = gen st"
  by (auto simp: run_ucb_def split: sum.splits)

lemma run_random_Inr:
  "run_random c g = Inr (traj, g') \<Longrightarrow>
     \<exists>st. run_steps (random_step c) (nat (NUM_STEPS c))
            \<lparr>b_total_reward = 0, b_rewards = [], b_gen = g\<rparr> = Inr st
        \<and> traj = b_rewards st \<and> g' = b_gen st"
  by (auto simp: run_random_def split: sum.splits)

lemma run_epsilon_greedy_total:
  assumes "1 \<le> NUM_ARMS c" "NUM_ARMS c \<le> int (length (TRUE_MEANS c))"
  shows "\<exists>traj vs g'. run_epsilon_greedy c epsilon g = Inr ((traj, vs), g')"
  using eg_run_total[OF assms, of epsilon "nat (NUM_STEPS c)" g]
  by (auto simp: run_epsilon_greedy_def)

lemma run_ucb_total:
  assumes "1 \<le> NUM_ARMS c" "NUM_ARMS c \<le> int (length (TRUE_MEANS c))"
  shows "\<exists>traj vs g'. run_ucb c g = Inr ((traj, vs), g')"
  using ucb_run_total[OF assms, of "nat (NUM_STEPS c)" g]
  by (auto simp: run_ucb_def)

lemma run_random_total:
  assumes "1 \<le> NUM_ARMS c" "NUM_ARMS c \<le> int (length (TRUE_MEANS c))"
  shows "\<exists>traj g'. run_random c g = Inr (traj, g')"
  using random_run_total[OF assms, of "nat (NUM_STEPS c)"
      "\<lparr>b_total_reward = 0, b_rewards = [], b_gen = g\<rparr>"]
  by (auto simp: run_random_def)

lemma one_arm_steps: "nat (NUM_STEPS one_arm) = Suc (Suc 0)"
  by (simp add: one_arm_def)

lemma one_arm_run_epsilon_greedy:
  "run_epsilon_greedy one_arm 0 (\<lambda>k. 0) = Inr (([1, 1], [1]), \<lambda>k. 0)"
  unfolding run_epsilon_greedy_def one_arm_steps
  by (simp add: learn_step_def eg_select_unfold index_of_max_def one_arm_def
      init_state_def pull_arm_def random_random_def advance_def update_estimates_def Let_def)

lemma one_arm_run_ucb:
  "run_ucb one_arm (\<lambda>k. 0) = Inr (([1, 1], [1]), \<lambda>k. 0)"
  unfolding run_ucb_def one_arm_steps
  by (simp add: learn_step_def ucb_select_def ucb_score_def index_of_max_def one_arm_def
      init_state_def pull_arm_def random_random_def advance_def update_estimates_def Let_def)

lemma one_arm_run_random:
  "run_random one_arm (\<lambda>k. 0) = Inr ([1, 1], \<lambda>k. 0)"
  unfolding run_random_def one_arm_steps
  by (simp add: random_step_def random_select_def random_randint_def one_arm_def
      pull_arm_def random_random_def advance_def Let_def)

lemma run_epsilon_greedy_shape:
  assumes "run_epsilon_greedy c epsilon g = Inr ((r, v), g')"
  shows "length r = nat (NUM_STEPS c) \<and> length v = nat (NUM_ARMS c)"
proof -
  from run_epsilon_greedy_Inr[OF assms] obtain st where
    st: "run_steps (learn_step c (eg_select c epsilon)) (nat (NUM_STEPS c)) (init_state c g) = Inr st"
    and e: "r = rewards st" "v = vals st" by blast
  from learn_run_invariant[OF st] learn_trajectory[OF st] e show ?thesis by auto
qed

lemma run_ucb_shape:
  assumes "run_ucb c g = Inr ((r, v), g')"
  shows "length r = nat (NUM_STEPS c) \<and> length v = nat (NUM_ARMS c)"
proof -
  from run_ucb_Inr[OF assms] obtain st where
    st: "run_steps (learn_step c (ucb_select c)) (nat (NUM_STEPS c)) (init_state c g) = Inr st"
    and e: "r = rewards st" "v = vals st" by blast
  from learn_run_invariant[OF st] learn_trajectory[OF st] e show ?thesis by auto
qed

lemma run_random_shape:
  assumes "run_random c g = Inr (r, g')"
  shows "length r = nat (NUM_STEPS c)"
proof -
  from run_random_Inr[OF assms] obtain st where
    st: "run_steps (random_step c) (nat (NUM_STEPS c))
            \<lparr>b_total_reward = 0, b_rewards = [], b_gen = g\<rparr> = Inr st"
    and e: "r = b_rewards st" by blast
  from random_trajectory[OF st] e show ?thesis by auto
qed

lemma single_run_shape:
  assumes "single_run c s g = Inr (r, e)"
  shows "length r = nat (NUM_STEPS c)"
    and "s = Random_baseline \<Longrightarrow> e = None"
    and "s \<noteq> Random_baseline \<Longrightarrow> \<exists>v. e = Some v \<and> length v = nat (NUM_ARMS c)"
  using assms
  by (cases s; auto simp: single_run_def split: sum.splits
      dest: run_epsilon_greedy_shape run_ucb_shape run_random_shape)+

section \<open>The collecting loop and the averages\<close>

lemma collect_step_Inr:
  assumes "collect_step c s i col = Inr col'"
  shows "\<exists>r e. single_run c s (c_gen col) = Inr (r, e)
           \<and> all_rewards col' = all_rewards col @ [r]
           \<and> all_final_values col' = all_final_values col @ (case e of None \<Rightarrow> [] | Some v \<Rightarrow> [v])"
  using assms
  by (cases s) (auto simp: collect_step_def single_run_def split: sum.splits prod.splits)

lemma collect_step_total:
  assumes "single_run c s (c_gen col) = Inr (r, e)"
  shows "\<exists>col'. collect_step c s i col = Inr col'"
  using assms
  by (cases s) (auto simp: collect_step_def single_run_def split: sum.splits prod.splits)

lemma single_run_total:
  assumes "1 \<le> NUM_ARMS c" "NUM_ARMS c \<le> int (length (TRUE_MEANS c))"
  shows "\<exists>r e. single_run c s g = Inr (r, e)"
proof (cases s)
  case Epsilon_greedy
  with run_epsilon_greedy_total[OF assms, of "EPSILON c" g] show ?thesis
    by (auto simp: single_run_def)
next
  case Ucb
  with run_ucb_total[OF assms, of g] show ?thesis by (auto simp: single_run_def)
next
  case Random_baseline
  with run_random_total[OF assms, of g] show ?thesis by (auto simp: single_run_def)
qed

lemma collect_total:
  assumes "1 \<le> NUM_ARMS c" "NUM_ARMS c \<le> int (length (TRUE_MEANS c))"
  shows "\<exists>col. run_steps (collect_step c s) n col0 = Inr col"
proof (induction n)
  case 0 then show ?case by simp
next
  case (Suc n)
  then obtain col where col: "run_steps (collect_step c s) n col0 = Inr col" by blast
  from single_run_total[OF assms, of s "c_gen col"] obtain r e where
    "single_run c s (c_gen col) = Inr (r, e)" by blast
  from collect_step_total[OF this, of n] col show ?case by auto
qed

lemma collect_invariant:
  assumes "run_steps (collect_step c s) n \<lparr>all_rewards = [], all_final_values = [], c_gen = g\<rparr>
             = Inr col"
  shows "length (all_rewards col) = n
       \<and> (\<forall>i<n. length (all_rewards col ! i) = nat (NUM_STEPS c)
               \<and> (\<exists>e. nth_run c s g i = Inr (all_rewards col ! i, e)))
       \<and> (s = Random_baseline \<longrightarrow> all_final_values col = [])
       \<and> (s \<noteq> Random_baseline \<longrightarrow> length (all_final_values col) = n
             \<and> (\<forall>i<n. length (all_final_values col ! i) = nat (NUM_ARMS c)
                   \<and> (\<exists>r. nth_run c s g i = Inr (r, Some (all_final_values col ! i)))))"
  using assms
proof (induction n arbitrary: col)
  case 0
  then show ?case by auto
next
  case (Suc n)
  let ?c0 = "\<lparr>all_rewards = [], all_final_values = [], c_gen = g\<rparr>"
  from run_steps_Suc_Inr[OF Suc.prems] obtain m where
    m: "run_steps (collect_step c s) n ?c0 = Inr m" and step: "collect_step c s n m = Inr col"
    by blast
  note ih = Suc.IH[OF m]
  from collect_step_Inr[OF step] obtain r e where
    sr: "single_run c s (c_gen m) = Inr (r, e)"
    and ar: "all_rewards col = all_rewards m @ [r]"
    and af: "all_final_values col = all_final_values m @ (case e of None \<Rightarrow> [] | Some v \<Rightarrow> [v])"
    by blast
  have nr: "nth_run c s g n = Inr (r, e)" using m sr by (simp add: nth_run_def)
  note sh = single_run_shape[OF sr]
  have lm: "length (all_rewards m) = n" using ih by blast
  have p1: "length (all_rewards col) = Suc n" using ar lm by simp
  have p2: "\<forall>i<Suc n. length (all_rewards col ! i) = nat (NUM_STEPS c)
               \<and> (\<exists>e. nth_run c s g i = Inr (all_rewards col ! i, e))"
  proof (intro allI impI)
    fix i assume i: "i < Suc n"
    show "length (all_rewards col ! i) = nat (NUM_STEPS c)
               \<and> (\<exists>e. nth_run c s g i = Inr (all_rewards col ! i, e))"
    proof (cases "i < n")
      case True
      then have "all_rewards col ! i = all_rewards m ! i" using ar lm by (simp add: nth_append)
      with ih True show ?thesis by simp
    next
      case False
      with i have "i = n" by simp
      then have "all_rewards col ! i = r" using ar lm by (simp add: nth_append)
      with sh(1) nr \<open>i = n\<close> show ?thesis by auto
    qed
  qed
  have p3: "s = Random_baseline \<longrightarrow> all_final_values col = []"
    using ih af sh(2) by auto
  have p4: "s \<noteq> Random_baseline \<longrightarrow> length (all_final_values col) = Suc n
             \<and> (\<forall>i<Suc n. length (all_final_values col ! i) = nat (NUM_ARMS c)
                   \<and> (\<exists>r. nth_run c s g i = Inr (r, Some (all_final_values col ! i))))"
  proof
    assume ns: "s \<noteq> Random_baseline"
    from sh(3)[OF ns] obtain v where v: "e = Some v" "length v = nat (NUM_ARMS c)" by blast
    from ih ns have lf: "length (all_final_values m) = n"
      and old: "\<forall>i<n. length (all_final_values m ! i) = nat (NUM_ARMS c)
                   \<and> (\<exists>r. nth_run c s g i = Inr (r, Some (all_final_values m ! i)))" by blast+
    have af': "all_final_values col = all_final_values m @ [v]" using af v by simp
    have "\<forall>i<Suc n. length (all_final_values col ! i) = nat (NUM_ARMS c)
                   \<and> (\<exists>r. nth_run c s g i = Inr (r, Some (all_final_values col ! i)))"
    proof (intro allI impI)
      fix i assume i: "i < Suc n"
      show "length (all_final_values col ! i) = nat (NUM_ARMS c)
                   \<and> (\<exists>r. nth_run c s g i = Inr (r, Some (all_final_values col ! i)))"
      proof (cases "i < n")
        case True
        then have "all_final_values col ! i = all_final_values m ! i"
          using af' lf by (simp add: nth_append)
        with old True show ?thesis by simp
      next
        case False
        with i have "i = n" by simp
        then have "all_final_values col ! i = v" using af' lf by (simp add: nth_append)
        with v nr \<open>i = n\<close> show ?thesis by auto
      qed
    qed
    then show "length (all_final_values col) = Suc n
             \<and> (\<forall>i<Suc n. length (all_final_values col ! i) = nat (NUM_ARMS c)
                   \<and> (\<exists>r. nth_run c s g i = Inr (r, Some (all_final_values col ! i))))"
      using af' lf by simp
  qed
  show ?case using p1 p2 p3 p4 by blast
qed

lemma column_average_Inr:
  assumes len: "length xss = nat runs" and j: "\<forall>i<nat runs. j < length (xss ! i)"
    and nz: "runs \<noteq> 0"
  shows "column_average xss runs j
           = Inr ((\<Sum>i\<leftarrow>[0..<nat runs]. xss ! i ! j) / real_of_int runs)"
proof -
  have "comprehension (cell xss j) [0..<nat runs] = Inr (map (\<lambda>i. xss ! i ! j) [0..<nat runs])"
  proof (rule comprehension_map)
    fix i assume "i \<in> set [0..<nat runs]"
    then have i: "i < nat runs" by simp
    with j have "j < length (xss ! i)" by blast
    then show "cell xss j i = Inr (xss ! i ! j)" using len i by (simp add: cell_def)
  qed
  then show ?thesis using nz by (simp add: column_average_def)
qed

lemma columns_Inr:
  assumes len: "length xss = nat runs" and w: "\<forall>i<nat runs. length (xss ! i) = n"
    and nz: "runs \<noteq> 0"
  shows "comprehension (column_average xss runs) [0..<n]
           = Inr (map (\<lambda>j. (\<Sum>i\<leftarrow>[0..<nat runs]. xss ! i ! j) / real_of_int runs) [0..<n])"
proof (rule comprehension_map)
  fix j assume "j \<in> set [0..<n]"
  then have "\<forall>i<nat runs. j < length (xss ! i)" using w by simp
  from column_average_Inr[OF len this nz]
  show "column_average xss runs j
           = Inr ((\<Sum>i\<leftarrow>[0..<nat runs]. xss ! i ! j) / real_of_int runs)" .
qed

lemma average_runs_collected:
  assumes col: "run_steps (collect_step c s) (nat runs)
                  \<lparr>all_rewards = [], all_final_values = [], c_gen = g\<rparr> = Inr col"
    and nz: "runs \<noteq> 0"
  shows "average_runs c s runs g =
           Inr ((map (\<lambda>t. (\<Sum>i\<leftarrow>[0..<nat runs]. all_rewards col ! i ! t) / real_of_int runs)
                   [0..<nat (NUM_STEPS c)],
                 if all_final_values col \<noteq> []
                 then Some (map (\<lambda>a. (\<Sum>i\<leftarrow>[0..<nat runs]. all_final_values col ! i ! a)
                                       / real_of_int runs) [0..<nat (NUM_ARMS c)])
                 else None),
                c_gen col)"
proof -
  note inv = collect_invariant[OF col]
  have r: "comprehension (column_average (all_rewards col) runs) [0..<nat (NUM_STEPS c)]
        = Inr (map (\<lambda>t. (\<Sum>i\<leftarrow>[0..<nat runs]. all_rewards col ! i ! t) / real_of_int runs)
                 [0..<nat (NUM_STEPS c)])"
    using inv by (intro columns_Inr nz) simp_all
  show ?thesis
  proof (cases "all_final_values col = []")
    case True
    then show ?thesis using col r by (simp add: average_runs_def)
  next
    case False
    then have "s \<noteq> Random_baseline" using inv by auto
    with inv have "length (all_final_values col) = nat runs"
      "\<forall>i<nat runs. length (all_final_values col ! i) = nat (NUM_ARMS c)" by simp_all
    from columns_Inr[OF this nz] False col r show ?thesis by (simp add: average_runs_def)
  qed
qed

lemma average_runs_Inr_collected:
  assumes "average_runs c s runs g = Inr res"
  shows "\<exists>col. run_steps (collect_step c s) (nat runs)
                  \<lparr>all_rewards = [], all_final_values = [], c_gen = g\<rparr> = Inr col"
  using assms by (auto simp: average_runs_def split: sum.splits)

lemma average_runs_total:
  assumes "1 \<le> NUM_ARMS c" "NUM_ARMS c \<le> int (length (TRUE_MEANS c))" "runs \<noteq> 0"
  shows "\<exists>res. average_runs c s runs g = Inr res"
proof -
  from collect_total[OF assms(1,2)] obtain col where
    "run_steps (collect_step c s) (nat runs)
       \<lparr>all_rewards = [], all_final_values = [], c_gen = g\<rparr> = Inr col" by blast
  from average_runs_collected[OF this assms(3)] show ?thesis by blast
qed

lemma one_arm_average_runs_ucb:
  "average_runs one_arm Ucb 1 (\<lambda>k. 0) = Inr (([1, 1], Some [1]), \<lambda>k. 0)"
proof -
  have n: "nat (NUM_STEPS one_arm) = Suc (Suc 0)" "nat (NUM_ARMS one_arm) = Suc 0"
    by (simp_all add: one_arm_def)
  show ?thesis
    unfolding average_runs_def n
    by (simp add: collect_step_def one_arm_run_ucb column_average_def cell_def)
qed

lemma one_arm_average_runs_random:
  "average_runs one_arm Random_baseline 1 (\<lambda>k. 0) = Inr (([1, 1], None), \<lambda>k. 0)"
proof -
  have n: "nat (NUM_STEPS one_arm) = Suc (Suc 0)" "nat (NUM_ARMS one_arm) = Suc 0"
    by (simp_all add: one_arm_def)
  show ?thesis
    unfolding average_runs_def n
    by (simp add: collect_step_def one_arm_run_random column_average_def cell_def)
qed

section \<open>Degenerate configurations\<close>

lemma run_steps_Inl_mono:
  "run_steps body k s = Inl e \<Longrightarrow> k \<le> n \<Longrightarrow> run_steps body n s = Inl e"
proof (induction n)
  case 0 then show ?case by simp
next
  case (Suc n)
  show ?case
  proof (cases "k = Suc n")
    case True with Suc.prems show ?thesis by simp
  next
    case False
    with Suc.prems have "k \<le> n" by simp
    from Suc.IH[OF Suc.prems(1) this] show ?thesis by simp
  qed
qed

lemma run_steps_first_fails:
  assumes "body 0 s = Inl e" "1 \<le> n"
  shows "run_steps body n s = Inl e"
proof -
  have "run_steps body (Suc 0) s = Inl e" using assms(1) by simp
  from run_steps_Inl_mono[OF this] assms(2) show ?thesis by simp
qed

lemma eg_select_clamp_low: "epsilon \<le> 0 \<Longrightarrow> eg_select c epsilon = eg_select c 0"
proof (intro ext)
  fix t and st :: bandit assume "epsilon \<le> 0"
  then have "\<not> fst (random_random (gen st)) < epsilon" "\<not> fst (random_random (gen st)) < 0"
    using random_random_range[of "gen st"] by auto
  then show "eg_select c epsilon t st = eg_select c 0 t st" by (simp add: eg_select_unfold)
qed

lemma eg_select_clamp_high: "1 \<le> epsilon \<Longrightarrow> eg_select c epsilon = eg_select c 1"
proof (intro ext)
  fix t and st :: bandit assume "1 \<le> epsilon"
  then have "fst (random_random (gen st)) < epsilon" "fst (random_random (gen st)) < 1"
    using random_random_range[of "gen st"] by auto
  then show "eg_select c epsilon t st = eg_select c 1 t st" by (simp add: eg_select_unfold)
qed

lemma no_steps_runs:
  assumes "NUM_STEPS c \<le> 0"
  shows "run_epsilon_greedy c epsilon g = Inr (([], replicate (nat (NUM_ARMS c)) 0), g)"
    and "run_ucb c g = Inr (([], replicate (nat (NUM_ARMS c)) 0), g)"
    and "run_random c g = Inr ([], g)"
  using assms by (simp_all add: run_epsilon_greedy_def run_ucb_def run_random_def init_state_def)

lemma negative_runs_average:
  assumes "runs < 0"
  shows "average_runs c s runs g = Inr ((replicate (nat (NUM_STEPS c)) 0, None), g)"
proof -
  have n: "nat runs = 0" using assms by simp
  have col: "run_steps (collect_step c s) (nat runs)
               \<lparr>all_rewards = [], all_final_values = [], c_gen = g\<rparr>
             = Inr \<lparr>all_rewards = [], all_final_values = [], c_gen = g\<rparr>" by (simp add: n)
  have nz: "runs \<noteq> 0" using assms by simp
  show ?thesis unfolding average_runs_collected[OF col nz]
    by (simp add: n map_replicate_const)
qed

lemma zero_runs_average:
  assumes "1 \<le> NUM_STEPS c"
  shows "average_runs c s 0 g = Inl ZeroDivisionError"
proof -
  have "0 < nat (NUM_STEPS c)" using assms by simp
  then have "[0..<nat (NUM_STEPS c)] = 0 # [Suc 0..<nat (NUM_STEPS c)]" by (rule upt_conv_Cons)
  moreover have "column_average [] 0 0 = Inl ZeroDivisionError" by (simp add: column_average_def)
  ultimately show ?thesis by (simp add: average_runs_def)
qed

lemma no_arms_runs:
  assumes "NUM_ARMS c \<le> 0" "1 \<le> NUM_STEPS c"
  shows "run_epsilon_greedy c epsilon g = Inl ValueError"
    and "run_ucb c g = Inl ValueError"
    and "run_random c g = Inl ValueError"
proof -
  have n: "1 \<le> nat (NUM_STEPS c)" "nat (NUM_ARMS c) = 0" using assms by simp_all
  have "eg_select c epsilon 0 (init_state c g) = Inl ValueError"
    using assms(1) by (simp add: eg_select_unfold random_randint_def init_state_def index_of_max_Nil)
  then have "learn_step c (eg_select c epsilon) 0 (init_state c g) = Inl ValueError"
    by (simp add: learn_step_def)
  with run_steps_first_fails[of "learn_step c (eg_select c epsilon)" "init_state c g" ValueError
      "nat (NUM_STEPS c)"] n(1)
  show "run_epsilon_greedy c epsilon g = Inl ValueError" by (simp add: run_epsilon_greedy_def)
  have "ucb_select c 0 (init_state c g) = Inl ValueError"
    using assms(1) n(2) by (simp add: ucb_select_def index_of_max_Nil)
  then have "learn_step c (ucb_select c) 0 (init_state c g) = Inl ValueError"
    by (simp add: learn_step_def)
  with run_steps_first_fails[of "learn_step c (ucb_select c)" "init_state c g" ValueError
      "nat (NUM_STEPS c)"] n(1)
  show "run_ucb c g = Inl ValueError" by (simp add: run_ucb_def)
  have "random_step c 0 \<lparr>b_total_reward = 0, b_rewards = [], b_gen = g\<rparr> = Inl ValueError"
    using assms(1) by (simp add: random_step_def random_select_def random_randint_def)
  with run_steps_first_fails[of "random_step c" "\<lparr>b_total_reward = 0, b_rewards = [], b_gen = g\<rparr>"
      ValueError "nat (NUM_STEPS c)"] n(1)
  show "run_random c g = Inl ValueError" by (simp add: run_random_def)
qed

lemma ucb_warm_up_total:
  "int n \<le> NUM_ARMS c \<Longrightarrow> n \<le> length (TRUE_MEANS c) \<Longrightarrow>
     \<exists>st. run_steps (learn_step c (ucb_select c)) n (init_state c g) = Inr st"
proof (induction n)
  case 0 then show ?case by simp
next
  case (Suc n)
  then obtain st where st: "run_steps (learn_step c (ucb_select c)) n (init_state c g) = Inr st"
    by auto
  have n: "int n < NUM_ARMS c" "n < length (TRUE_MEANS c)" using Suc.prems by simp_all
  from learn_run_invariant[OF st] have
    l: "length (counts st) = nat (NUM_ARMS c)" "length (vals st) = nat (NUM_ARMS c)" by blast+
  have "n < nat (NUM_ARMS c)" using n(1) by simp
  with learn_step_total[of "ucb_select c" n st n "gen st" c] ucb_select_warm_up[OF n(1), of st] n(2) l
  obtain st' where "learn_step c (ucb_select c) n st = Inr st'" by auto
  with st show ?case by simp
qed

lemma short_means_ucb:
  assumes "int (length (TRUE_MEANS c)) < NUM_ARMS c" "int (length (TRUE_MEANS c)) < NUM_STEPS c"
  shows "run_ucb c g = Inl IndexError"
proof -
  let ?L = "length (TRUE_MEANS c)"
  from ucb_warm_up_total[of ?L c g] assms(1) obtain st where
    st: "run_steps (learn_step c (ucb_select c)) ?L (init_state c g) = Inr st" by auto
  have "pull_arm c ?L (gen st) = Inl IndexError" by (simp add: pull_arm_def random_random_def)
  then have "learn_step c (ucb_select c) ?L st = Inl IndexError"
    using ucb_select_warm_up[OF assms(1), of st] by (simp add: learn_step_def)
  with st have "run_steps (learn_step c (ucb_select c)) (Suc ?L) (init_state c g) = Inl IndexError"
    by simp
  moreover have "Suc ?L \<le> nat (NUM_STEPS c)" using assms(2) by simp
  ultimately have "run_steps (learn_step c (ucb_select c)) (nat (NUM_STEPS c)) (init_state c g)
                     = Inl IndexError" by (rule run_steps_Inl_mono)
  then show ?thesis by (simp add: run_ucb_def)
qed

lemma bad_epsilon_run:
  "run_epsilon_greedy bad_epsilon 2 (\<lambda>k. 0) = Inr (([1, 1], [1]), \<lambda>k. 0)"
proof -
  have n: "nat (NUM_STEPS bad_epsilon) = Suc (Suc 0)" by (simp add: bad_epsilon_def one_arm_def)
  show ?thesis
    unfolding run_epsilon_greedy_def n
    by (simp add: learn_step_def eg_select_unfold random_randint_def bad_epsilon_def one_arm_def
        init_state_def pull_arm_def random_random_def advance_def update_estimates_def Let_def)
qed

section \<open>The incremental mean\<close>

text \<open>
  C1. In a run of either learning policy (\<open>sel\<close> is the selection rule: \<open>eg_select c epsilon\<close>
  in \<^verbatim>\<open>run_epsilon_greedy\<close>, \<open>ucb_select c\<close> in \<^verbatim>\<open>run_ucb\<close>), after any number \<open>n\<close> of
  steps and for every arm \<open>a\<close>: \<open>counts[a]\<close> is the number \<open>k\<close> of pulls of \<open>a\<close> so far, and
  for \<open>k \<ge> 1\<close> the estimate \<open>values[a]\<close> is the sum of the rewards observed for \<open>a\<close> divided
  by \<open>k\<close>, over exact arithmetic. Only the pulls of \<open>a\<close> enter the formula, whatever was
  pulled in between. With \<open>NUM_ARMS \<ge> 1\<close> and \<^verbatim>\<open>TRUE_MEANS\<close> covering the arms, both
  policies reach every number of steps.
\<close>

theorem estimate_is_mean_of_observed_rewards:
  "(run_steps (learn_step c sel) n (init_state c g) = Inr st \<and> a < nat (NUM_ARMS c) \<longrightarrow>
      (\<exists>ps. pulls (pull_of c sel) (learn_step c sel) n (init_state c g) = Inr ps
           \<and> counts st ! a = length (rewards_of a ps)
           \<and> (1 \<le> length (rewards_of a ps) \<longrightarrow>
                vals st ! a = real (sum_list (rewards_of a ps)) / real (length (rewards_of a ps)))))
   \<and> (1 \<le> NUM_ARMS c \<and> NUM_ARMS c \<le> int (length (TRUE_MEANS c)) \<longrightarrow>
        (\<exists>s. run_steps (learn_step c (eg_select c epsilon)) n (init_state c g) = Inr s)
        \<and> (\<exists>s. run_steps (learn_step c (ucb_select c)) n (init_state c g) = Inr s))"
proof (intro conjI impI)
  assume "run_steps (learn_step c sel) n (init_state c g) = Inr st \<and> a < nat (NUM_ARMS c)"
  then have run: "run_steps (learn_step c sel) n (init_state c g) = Inr st"
    and a: "a < nat (NUM_ARMS c)" by simp_all
  from learn_run_invariant[OF run] a
  show "\<exists>ps. pulls (pull_of c sel) (learn_step c sel) n (init_state c g) = Inr ps
           \<and> counts st ! a = length (rewards_of a ps)
           \<and> (1 \<le> length (rewards_of a ps) \<longrightarrow>
                vals st ! a = real (sum_list (rewards_of a ps)) / real (length (rewards_of a ps)))"
    by blast
next
  assume "1 \<le> NUM_ARMS c \<and> NUM_ARMS c \<le> int (length (TRUE_MEANS c))"
  then have v: "1 \<le> NUM_ARMS c" "NUM_ARMS c \<le> int (length (TRUE_MEANS c))" by simp_all
  from eg_run_total[OF v]
  show "\<exists>s. run_steps (learn_step c (eg_select c epsilon)) n (init_state c g) = Inr s" .
  from ucb_run_total[OF v]
  show "\<exists>s. run_steps (learn_step c (ucb_select c)) n (init_state c g) = Inr s" .
qed

theorem estimate_is_mean_of_observed_rewards_witness:
  "(\<exists>ps. pulls (pull_of two_arms (ucb_select two_arms)) (learn_step two_arms (ucb_select two_arms))
           (Suc (Suc 0)) (init_state two_arms (\<lambda>k. 0)) = Inr ps
        \<and> length (rewards_of 0 ps) = 1
        \<and> real (sum_list (rewards_of 0 ps)) / real (length (rewards_of 0 ps)) = 1)
   \<and> (\<exists>s. run_steps (learn_step two_arms (eg_select two_arms 0)) (Suc (Suc 0))
             (init_state two_arms (\<lambda>k. 0)) = Inr s)"
proof -
  note t = estimate_is_mean_of_observed_rewards[of two_arms "ucb_select two_arms" "Suc (Suc 0)"
      "\<lambda>k. 0" _ 0 0]
  have a: "0 < nat (NUM_ARMS two_arms)" by (simp add: two_arms_def)
  from t two_arms_ucb_run a obtain ps where
    ps: "pulls (pull_of two_arms (ucb_select two_arms)) (learn_step two_arms (ucb_select two_arms))
           (Suc (Suc 0)) (init_state two_arms (\<lambda>k. 0)) = Inr ps"
    and k: "[1, 1] ! 0 = length (rewards_of 0 ps)"
    and m: "1 \<le> length (rewards_of 0 ps) \<longrightarrow>
              [1, 0] ! 0 = real (sum_list (rewards_of 0 ps)) / real (length (rewards_of 0 ps))"
    by fastforce
  from k have k': "length (rewards_of 0 ps) = 1" by simp
  with m have m': "real (sum_list (rewards_of 0 ps)) / real (length (rewards_of 0 ps)) = 1"
    by simp
  have "1 \<le> NUM_ARMS two_arms \<and> NUM_ARMS two_arms \<le> int (length (TRUE_MEANS two_arms))"
    by (simp add: two_arms_def)
  with t have "\<exists>s. run_steps (learn_step two_arms (eg_select two_arms 0)) (Suc (Suc 0))
             (init_state two_arms (\<lambda>k. 0)) = Inr s" by blast
  with ps k' m' show ?thesis by blast
qed

section \<open>The UCB1 policy\<close>

text \<open>
  C2. With \<open>NUM_ARMS \<ge> 1\<close>, at every step index \<open>t \<ge> NUM_ARMS\<close> (so in particular for
  \<open>NUM_ARMS \<le> t < NUM_STEPS\<close>):
  \<^item> in every state in which both lists cover the arms and every arm has been pulled
    (\<open>counts[a] \<ge> 1\<close>), line 83 returns for every arm \<open>a\<close> the score
    \<open>values[a] + sqrt(2 * ln(t + 1) / counts[a])\<close>, and the selection returns an arm of
    \<open>[0, NUM_ARMS)\<close> whose score is maximal over all arms, every arm with a smaller index
    having a strictly smaller score (first index on ties);
  \<^item> every state the UCB1 run reaches at step \<open>t\<close> is such a state;
  \<^item> with \<^verbatim>\<open>TRUE_MEANS\<close> covering the arms the run reaches step \<open>t\<close>, for every random
    source.
\<close>

theorem ucb_selects_first_arm_of_maximal_score:
  assumes "1 \<le> NUM_ARMS c" and "NUM_ARMS c \<le> int t"
  shows "(nat (NUM_ARMS c) \<le> length (vals st) \<and> nat (NUM_ARMS c) \<le> length (counts st)
            \<and> (\<forall>a<nat (NUM_ARMS c). 1 \<le> counts st ! a) \<longrightarrow>
          (\<exists>arm. ucb_select c t st = Inr (arm, gen st) \<and> arm < nat (NUM_ARMS c)
             \<and> comprehension (ucb_score st t) [0..<nat (NUM_ARMS c)]
                 = Inr (map (confidence_bound st t) [0..<nat (NUM_ARMS c)])
             \<and> (\<forall>a<nat (NUM_ARMS c). confidence_bound st t a \<le> confidence_bound st t arm)
             \<and> (\<forall>a<arm. confidence_bound st t a < confidence_bound st t arm)))
       \<and> (run_steps (learn_step c (ucb_select c)) t (init_state c g) = Inr s \<longrightarrow>
            length (vals s) = nat (NUM_ARMS c) \<and> length (counts s) = nat (NUM_ARMS c)
            \<and> (\<forall>a<nat (NUM_ARMS c). 1 \<le> counts s ! a))
       \<and> (NUM_ARMS c \<le> int (length (TRUE_MEANS c)) \<longrightarrow>
            (\<exists>r. run_steps (learn_step c (ucb_select c)) t (init_state c g) = Inr r))"
proof (intro conjI impI)
  assume h: "nat (NUM_ARMS c) \<le> length (vals st) \<and> nat (NUM_ARMS c) \<le> length (counts st)
            \<and> (\<forall>a<nat (NUM_ARMS c). 1 \<le> counts st ! a)"
  then have lv: "nat (NUM_ARMS c) \<le> length (vals st)"
    and lc: "nat (NUM_ARMS c) \<le> length (counts st)"
    and pos: "\<forall>a<nat (NUM_ARMS c). 1 \<le> counts st ! a" by simp_all
  from ucb_select_positive_counts[OF assms lv lc pos] ucb_scores_positive_counts[OF lv lc pos, of t]
  show "\<exists>arm. ucb_select c t st = Inr (arm, gen st) \<and> arm < nat (NUM_ARMS c)
             \<and> comprehension (ucb_score st t) [0..<nat (NUM_ARMS c)]
                 = Inr (map (confidence_bound st t) [0..<nat (NUM_ARMS c)])
             \<and> (\<forall>a<nat (NUM_ARMS c). confidence_bound st t a \<le> confidence_bound st t arm)
             \<and> (\<forall>a<arm. confidence_bound st t a < confidence_bound st t arm)" by blast
next
  assume run: "run_steps (learn_step c (ucb_select c)) t (init_state c g) = Inr s"
  from ucb_reached_counts[OF run assms(2)]
  show "length (vals s) = nat (NUM_ARMS c)" "length (counts s) = nat (NUM_ARMS c)"
    "\<forall>a<nat (NUM_ARMS c). 1 \<le> counts s ! a" by simp_all
next
  assume "NUM_ARMS c \<le> int (length (TRUE_MEANS c))"
  from ucb_run_total[OF assms(1) this]
  show "\<exists>r. run_steps (learn_step c (ucb_select c)) t (init_state c g) = Inr r" .
qed

theorem ucb_selects_first_arm_of_maximal_score_witness:
  "ucb_select two_arms (Suc (Suc 0))
     \<lparr>counts = [2, 1], vals = [0, 1], total_reward = 1, rewards = [0, 0, 1 / 3], gen = (\<lambda>k. 0)\<rparr>
   = Inr (1, \<lambda>k. 0)
   \<and> (\<exists>r. run_steps (learn_step two_arms (ucb_select two_arms)) (Suc (Suc 0))
             (init_state two_arms (\<lambda>k. 0)) = Inr r \<and> 1 \<le> counts r ! 1)"
proof -
  let ?st = "\<lparr>counts = [2, 1], vals = [0, 1], total_reward = 1, rewards = [0, 0, 1 / 3],
               gen = (\<lambda>k. 0::nat)\<rparr>"
  have n: "1 \<le> NUM_ARMS two_arms" "NUM_ARMS two_arms \<le> int (Suc (Suc 0))"
    by (simp_all add: two_arms_def)
  note t = ucb_selects_first_arm_of_maximal_score[OF n]
  have two: "nat (NUM_ARMS two_arms) = 2" by (simp add: two_arms_def)
  have pre: "nat (NUM_ARMS two_arms) \<le> length (vals ?st)
            \<and> nat (NUM_ARMS two_arms) \<le> length (counts ?st)
            \<and> (\<forall>a<nat (NUM_ARMS two_arms). 1 \<le> counts ?st ! a)"
    by (simp add: two less_Suc_eq numeral_2_eq_2)
  from t[of ?st] pre obtain arm where
    sel: "ucb_select two_arms (Suc (Suc 0)) ?st = Inr (arm, gen ?st)"
    and arm: "arm < nat (NUM_ARMS two_arms)"
    and mx: "\<forall>a<nat (NUM_ARMS two_arms). confidence_bound ?st (Suc (Suc 0)) a
               \<le> confidence_bound ?st (Suc (Suc 0)) arm" by blast
  have "arm \<noteq> 0"
  proof
    assume "arm = 0"
    with mx have "confidence_bound ?st (Suc (Suc 0)) 1 \<le> confidence_bound ?st (Suc (Suc 0)) 0"
      by (simp add: two)
    then have "1 + sqrt (2 * ln 3) \<le> sqrt (ln 3)" by (simp add: confidence_bound_def)
    moreover have "(0::real) \<le> ln 3" by simp
    then have "sqrt (ln 3) \<le> sqrt (2 * ln (3::real))"
      by (intro real_sqrt_le_mono) linarith
    ultimately show False by linarith
  qed
  with arm have "arm = 1" by (simp add: two)
  with sel have a: "ucb_select two_arms (Suc (Suc 0)) ?st = Inr (1, \<lambda>k. 0)" by simp
  from t[of _ "\<lambda>k. 0"] two_arms_ucb_run have
    b: "\<exists>r. run_steps (learn_step two_arms (ucb_select two_arms)) (Suc (Suc 0))
             (init_state two_arms (\<lambda>k. 0)) = Inr r \<and> 1 \<le> counts r ! 1"
    by (simp add: two)
  from a b show ?thesis by blast
qed

text \<open>
  C3. In the UCB1 run, at every step index \<open>t < min(NUM_ARMS, NUM_STEPS)\<close> the selection
  returns arm \<open>t\<close> in every state, without consuming a draw; and when \<^verbatim>\<open>TRUE_MEANS\<close> covers
  the arms, the run reaches step \<open>t\<close> for every random source and the arms pulled in steps
  \<open>0..t\<close> are \<open>0, 1, ..., t\<close> in this order.
\<close>

theorem ucb_warm_up_pulls_arms_in_order:
  assumes "int t < NUM_ARMS c" and "int t < NUM_STEPS c"
  shows "ucb_select c t st = Inr (t, gen st)
       \<and> (NUM_ARMS c \<le> int (length (TRUE_MEANS c)) \<longrightarrow>
            (\<exists>ps. pulls (pull_of c (ucb_select c)) (learn_step c (ucb_select c)) (Suc t)
                     (init_state c g) = Inr ps
                 \<and> map fst ps = [0..<Suc t]))"
proof (intro conjI impI)
  show "ucb_select c t st = Inr (t, gen st)" using assms(1) by (rule ucb_select_warm_up)
next
  assume valid: "NUM_ARMS c \<le> int (length (TRUE_MEANS c))"
  have "1 \<le> NUM_ARMS c" using assms(1) by simp
  from ucb_run_total[OF this valid] obtain s where
    s: "run_steps (learn_step c (ucb_select c)) (Suc t) (init_state c g) = Inr s" by blast
  from learn_run_invariant[OF s] obtain ps where
    ps: "pulls (pull_of c (ucb_select c)) (learn_step c (ucb_select c)) (Suc t) (init_state c g)
           = Inr ps" and len: "length ps = Suc t" by blast
  have "map fst ps = [0..<Suc t]"
  proof (rule nth_equalityI)
    show "length (map fst ps) = length [0..<Suc t]" using len by simp
  next
    fix k assume "k < length (map fst ps)"
    then have k: "k < Suc t" using len by simp
    then have "int k < NUM_ARMS c" using assms(1) by simp
    from ucb_pulls_warm_up[OF ps k this] have "fst (ps ! k) = k" .
    then show "map fst ps ! k = [0..<Suc t] ! k" using k len
      by (simp add: nth_upt del: upt_Suc)
  qed
  with ps show "\<exists>ps. pulls (pull_of c (ucb_select c)) (learn_step c (ucb_select c)) (Suc t)
                     (init_state c g) = Inr ps \<and> map fst ps = [0..<Suc t]" by blast
qed

theorem ucb_warm_up_pulls_arms_in_order_witness:
  "ucb_select two_arms (Suc 0) (init_state two_arms (\<lambda>k. 0)) = Inr (Suc 0, \<lambda>k. 0)
   \<and> (\<exists>ps. pulls (pull_of two_arms (ucb_select two_arms)) (learn_step two_arms (ucb_select two_arms))
              (Suc (Suc 0)) (init_state two_arms (\<lambda>k. 0)) = Inr ps
          \<and> map fst ps = [0, Suc 0])"
proof -
  have h: "int (Suc 0) < NUM_ARMS two_arms" "int (Suc 0) < NUM_STEPS two_arms"
    "NUM_ARMS two_arms \<le> int (length (TRUE_MEANS two_arms))"
    by (simp_all add: two_arms_def)
  from ucb_warm_up_pulls_arms_in_order[OF h(1,2), of "init_state two_arms (\<lambda>k. 0)" "\<lambda>k. 0"] h(3)
  show ?thesis by (simp add: init_state_def)
qed

text \<open>
  C4. With \<open>NUM_ARMS \<ge> 1\<close>: in every state the UCB1 run reaches at a step index
  \<open>t \<ge> NUM_ARMS\<close>, \<open>counts[a] \<ge> 1\<close> for every arm \<open>a\<close> and the score of \<open>a\<close> is computed
  without a division by zero; no run of \<^verbatim>\<open>run_ucb\<close> ends in \<^verbatim>\<open>ZeroDivisionError\<close>; and
  for \<open>NUM_STEPS < NUM_ARMS\<close> every step index \<open>k\<close> of the run takes the warm-up branch,
  whose result does not read the estimates.
\<close>

theorem ucb_counts_positive_when_scored:
  assumes "1 \<le> NUM_ARMS c"
  shows "(NUM_ARMS c \<le> int t \<and> a < nat (NUM_ARMS c)
            \<and> run_steps (learn_step c (ucb_select c)) t (init_state c g) = Inr st
          \<longrightarrow> 1 \<le> counts st ! a \<and> ucb_score st t a = Inr (confidence_bound st t a))
       \<and> run_ucb c g \<noteq> Inl ZeroDivisionError
       \<and> (NUM_STEPS c < NUM_ARMS c \<and> int k < NUM_STEPS c \<longrightarrow> ucb_select c k s = Inr (k, gen s))"
proof (intro conjI impI)
  assume h: "NUM_ARMS c \<le> int t \<and> a < nat (NUM_ARMS c)
            \<and> run_steps (learn_step c (ucb_select c)) t (init_state c g) = Inr st"
  then have run: "run_steps (learn_step c (ucb_select c)) t (init_state c g) = Inr st"
    and a: "a < nat (NUM_ARMS c)" and t: "NUM_ARMS c \<le> int t" by simp_all
  have "a < t" using a t by linarith
  from ucb_counts_positive[OF run a this] show pos: "1 \<le> counts st ! a" .
  from learn_run_invariant[OF run] have
    "length (counts st) = nat (NUM_ARMS c)" "length (vals st) = nat (NUM_ARMS c)" by blast+
  with a have "a < length (vals st)" "a < length (counts st)" by simp_all
  from ucb_score_Inr[OF this pos] show "ucb_score st t a = Inr (confidence_bound st t a)"
    by (simp add: confidence_bound_def)
next
  show "run_ucb c g \<noteq> Inl ZeroDivisionError"
    using ucb_run_no_zero_division[of c "nat (NUM_STEPS c)" g]
    by (auto simp: run_ucb_def split: sum.splits)
next
  assume "NUM_STEPS c < NUM_ARMS c \<and> int k < NUM_STEPS c"
  then have "int k < NUM_ARMS c" by simp
  then show "ucb_select c k s = Inr (k, gen s)" by (rule ucb_select_warm_up)
qed

theorem ucb_counts_positive_when_scored_witness:
  "1 \<le> counts \<lparr>counts = [1], vals = [1], total_reward = 1, rewards = [1], gen = (\<lambda>k. 0)\<rparr> ! 0
   \<and> run_ucb one_arm (\<lambda>k. 0) \<noteq> Inl ZeroDivisionError
   \<and> ucb_select short_run 0 (init_state short_run (\<lambda>k. 0)) = Inr (0, \<lambda>k. 0)"
proof -
  have a: "1 \<le> NUM_ARMS one_arm" "1 \<le> NUM_ARMS short_run"
    by (simp_all add: one_arm_def short_run_def)
  have b: "NUM_ARMS one_arm \<le> int (Suc 0) \<and> 0 < nat (NUM_ARMS one_arm)
            \<and> run_steps (learn_step one_arm (ucb_select one_arm)) (Suc 0)
                 (init_state one_arm (\<lambda>k. 0))
               = Inr \<lparr>counts = [1], vals = [1], total_reward = 1, rewards = [1], gen = (\<lambda>k. 0)\<rparr>"
    using one_arm_ucb_run by (simp add: one_arm_def)
  have c: "NUM_STEPS short_run < NUM_ARMS short_run \<and> int 0 < NUM_STEPS short_run"
    by (simp add: short_run_def)
  from ucb_counts_positive_when_scored[OF a(1), of "Suc 0" 0 "\<lambda>k. 0"] b
    ucb_counts_positive_when_scored[OF a(2), of _ _ _ _ 0 "init_state short_run (\<lambda>k. 0)"] c
  show ?thesis by (simp add: init_state_def)
qed

section \<open>The Epsilon-Greedy policy\<close>

text \<open>
  C5. In every state with at least one estimate, at every step where the exploitation
  branch is taken (the draw is not below \<open>epsilon\<close>, which is always so for \<open>epsilon \<le> 0\<close>
  and in particular for \<open>epsilon = 0\<close>): the selection succeeds, consumes the one draw, and
  returns an index of \<^verbatim>\<open>values\<close> whose estimate is maximal, every smaller index having a
  strictly smaller estimate (first index on ties). Every state the Epsilon-Greedy run
  reaches holds \<open>NUM_ARMS\<close> estimates, so for \<open>NUM_ARMS \<ge> 1\<close> the selected arm is the first
  arm of maximal estimate among the arms \<open>[0, NUM_ARMS)\<close>; and with \<^verbatim>\<open>TRUE_MEANS\<close> covering
  the arms the run reaches every step index.
\<close>

theorem exploitation_selects_first_arm_of_maximal_estimate:
  "(vals st \<noteq> [] \<and> (epsilon \<le> 0 \<or> \<not> fst (random_random (gen st)) < epsilon) \<longrightarrow>
      (\<exists>arm. eg_select c epsilon t st = Inr (arm, snd (random_random (gen st)))
         \<and> arm < length (vals st)
         \<and> (\<forall>a<length (vals st). vals st ! a \<le> vals st ! arm)
         \<and> (\<forall>a<arm. vals st ! a < vals st ! arm)))
   \<and> (run_steps (learn_step c (eg_select c epsilon)) t (init_state c g) = Inr s \<longrightarrow>
        length (vals s) = nat (NUM_ARMS c))
   \<and> (1 \<le> NUM_ARMS c \<and> NUM_ARMS c \<le> int (length (TRUE_MEANS c)) \<longrightarrow>
        (\<exists>r. run_steps (learn_step c (eg_select c epsilon)) t (init_state c g) = Inr r))"
proof (intro conjI impI)
  assume h: "vals st \<noteq> [] \<and> (epsilon \<le> 0 \<or> \<not> fst (random_random (gen st)) < epsilon)"
  then have ne: "vals st \<noteq> []"
    and e: "epsilon \<le> 0 \<or> \<not> fst (random_random (gen st)) < epsilon" by simp_all
  from eg_select_exploit[OF e ne, of c t] random_random_range[of "gen st"]
  show "\<exists>arm. eg_select c epsilon t st = Inr (arm, snd (random_random (gen st)))
         \<and> arm < length (vals st)
         \<and> (\<forall>a<length (vals st). vals st ! a \<le> vals st ! arm)
         \<and> (\<forall>a<arm. vals st ! a < vals st ! arm)" by simp
next
  assume "run_steps (learn_step c (eg_select c epsilon)) t (init_state c g) = Inr s"
  from learn_run_invariant[OF this] show "length (vals s) = nat (NUM_ARMS c)" by blast
next
  assume "1 \<le> NUM_ARMS c \<and> NUM_ARMS c \<le> int (length (TRUE_MEANS c))"
  then have v: "1 \<le> NUM_ARMS c" "NUM_ARMS c \<le> int (length (TRUE_MEANS c))" by simp_all
  from eg_run_total[OF v]
  show "\<exists>r. run_steps (learn_step c (eg_select c epsilon)) t (init_state c g) = Inr r" .
qed

theorem exploitation_selects_first_arm_of_maximal_estimate_witness:
  "eg_select two_arms (1 / 10) 5
     \<lparr>counts = [2, 3], vals = [0, 1 / 3], total_reward = 1, rewards = [], gen = (\<lambda>k. 2 ^ 52)\<rparr>
   = Inr (1, \<lambda>k. 2 ^ 52)
   \<and> eg_select two_arms 0 0 (init_state two_arms (\<lambda>k. 0)) = Inr (0, \<lambda>k. 0)
   \<and> length (vals (init_state two_arms (\<lambda>k. 0))) = nat (NUM_ARMS two_arms)
   \<and> (\<exists>r. run_steps (learn_step two_arms (eg_select two_arms 0)) (Suc 0)
             (init_state two_arms (\<lambda>k. 0)) = Inr r)"
proof -
  let ?st = "\<lparr>counts = [2, 3], vals = [0, 1 / 3], total_reward = 1, rewards = [],
               gen = (\<lambda>k. (2::nat) ^ 52)\<rparr>"
  note t = exploitation_selects_first_arm_of_maximal_estimate
  have u: "fst (random_random (gen ?st)) = 1 / 2" by (simp add: random_random_def)
  have h: "vals ?st \<noteq> [] \<and> ((1 / 10 :: real) \<le> 0 \<or> \<not> fst (random_random (gen ?st)) < 1 / 10)"
    unfolding u by simp
  from t[of ?st "1 / 10" two_arms 5] h obtain arm where
    sel: "eg_select two_arms (1 / 10) 5 ?st = Inr (arm, snd (random_random (gen ?st)))"
    and arm: "arm < length (vals ?st)"
    and mx: "\<forall>a<length (vals ?st). vals ?st ! a \<le> vals ?st ! arm" by blast
  have "arm \<noteq> 0"
  proof
    assume z: "arm = 0"
    have "(1::nat) < length (vals ?st)" by simp
    with mx have "vals ?st ! 1 \<le> vals ?st ! arm" by blast
    with z show False by simp
  qed
  with arm have "arm = 1" by (simp add: less_Suc_eq)
  with sel have a: "eg_select two_arms (1 / 10) 5 ?st = Inr (1, \<lambda>k. 2 ^ 52)"
    by (simp add: random_random_def advance_def)
  let ?i = "init_state two_arms (\<lambda>k. 0)"
  have hi: "vals ?i \<noteq> [] \<and> ((0::real) \<le> 0 \<or> \<not> fst (random_random (gen ?i)) < 0)"
    by (simp add: init_state_def two_arms_def)
  from t[of ?i 0 two_arms 0] hi obtain arm0 where
    sel0: "eg_select two_arms 0 0 ?i = Inr (arm0, snd (random_random (gen ?i)))"
    and fst0: "\<forall>a<arm0. vals ?i ! a < vals ?i ! arm0" and arm0: "arm0 < length (vals ?i)"
    by blast
  have "arm0 = 0"
  proof (rule ccontr)
    assume "arm0 \<noteq> 0"
    with arm0 have "arm0 = 1" by (simp add: init_state_def two_arms_def)
    with fst0 have "vals ?i ! 0 < vals ?i ! 1" by simp
    then show False by (simp add: init_state_def two_arms_def replicate_two)
  qed
  with sel0 have b: "eg_select two_arms 0 0 ?i = Inr (0, \<lambda>k. 0)"
    by (simp add: random_random_def advance_def init_state_def)
  have r0: "run_steps (learn_step two_arms (eg_select two_arms 0)) 0 ?i = Inr ?i" by simp
  with t[of _ 0 two_arms 0 "\<lambda>k. 0" ?i] have
    c: "length (vals ?i) = nat (NUM_ARMS two_arms)" by blast
  have "1 \<le> NUM_ARMS two_arms \<and> NUM_ARMS two_arms \<le> int (length (TRUE_MEANS two_arms))"
    by (simp add: two_arms_def)
  with t[of _ 0 two_arms "Suc 0" "\<lambda>k. 0"] have
    d: "\<exists>r. run_steps (learn_step two_arms (eg_select two_arms 0)) (Suc 0) ?i = Inr r" by blast
  from a b c d show ?thesis by blast
qed

text \<open>
  C10. In the Epsilon-Greedy run with \<open>epsilon = 0\<close>, \<open>NUM_ARMS \<ge> 1\<close> and a non-empty
  \<^verbatim>\<open>TRUE_MEANS\<close>: for every random source the run reaches every step index \<open>t\<close>, the arm
  selected there is arm 0, the estimate of arm 0 lies in \<open>[0, 1]\<close> and the estimate of every
  other arm is \<open>0\<close>.
\<close>

theorem greedy_run_always_selects_arm_zero:
  assumes "1 \<le> NUM_ARMS c" and "TRUE_MEANS c \<noteq> []" and "int t < NUM_STEPS c"
  shows "\<exists>st. run_steps (learn_step c (eg_select c 0)) t (init_state c g) = Inr st
           \<and> eg_select c 0 t st = Inr (0, advance (gen st))
           \<and> 0 \<le> vals st ! 0 \<and> vals st ! 0 \<le> 1
           \<and> (\<forall>a. 0 < a \<and> a < nat (NUM_ARMS c) \<longrightarrow> vals st ! a = 0)"
proof -
  from greedy_run_invariant[OF assms(1,2), of t g] obtain st where
    st: "run_steps (learn_step c (eg_select c 0)) t (init_state c g) = Inr st"
    and lv: "length (vals st) = nat (NUM_ARMS c)"
    and lo: "0 \<le> vals st ! 0" and hi: "vals st ! 0 \<le> 1"
    and z: "\<forall>a. 0 < a \<and> a < length (vals st) \<longrightarrow> vals st ! a = 0" by blast
  have "vals st \<noteq> []" using lv assms(1) by auto
  from greedy_select_zero[OF this lo z] have "eg_select c 0 t st = Inr (0, advance (gen st))" .
  with st lo hi z lv show ?thesis by auto
qed

theorem greedy_run_always_selects_arm_zero_witness:
  "eg_select two_arms 0 (Suc (Suc 0))
     \<lparr>counts = [2, 0], vals = [1, 0], total_reward = 2, rewards = [1, 1], gen = (\<lambda>k. 0)\<rparr>
   = Inr (0, \<lambda>k. 0)"
proof -
  have h: "1 \<le> NUM_ARMS two_arms" "TRUE_MEANS two_arms \<noteq> []"
    "int (Suc (Suc 0)) < NUM_STEPS two_arms" by (simp_all add: two_arms_def)
  from greedy_run_always_selects_arm_zero[OF h, of "\<lambda>k. 0"] two_arms_greedy_run
  show ?thesis by (simp add: advance_def)
qed

section \<open>The trajectory of a run\<close>

text \<open>
  C6. Whenever a run of one of the three policies returns, its trajectory has length
  \<open>NUM_STEPS\<close> (\<open>nat\<close> maps a negative \<^verbatim>\<open>NUM_STEPS\<close> to the empty range of the loop) and
  its element at index \<open>t\<close> is the total reward the run earned in steps \<open>0..t\<close> divided by
  \<open>t + 1\<close>. With \<open>NUM_ARMS \<ge> 1\<close> and \<^verbatim>\<open>TRUE_MEANS\<close> covering the arms, every run returns.
\<close>

theorem trajectory_is_cumulative_average:
  "(run_epsilon_greedy c epsilon g = Inr ((traj, vs), g') \<longrightarrow>
      (\<exists>ps. eg_pulls c epsilon g = Inr ps \<and> length traj = nat (NUM_STEPS c)
          \<and> (\<forall>t<nat (NUM_STEPS c). traj ! t = cumulative_average ps t)))
   \<and> (run_ucb c g = Inr ((traj, vs), g') \<longrightarrow>
      (\<exists>ps. ucb_pulls c g = Inr ps \<and> length traj = nat (NUM_STEPS c)
          \<and> (\<forall>t<nat (NUM_STEPS c). traj ! t = cumulative_average ps t)))
   \<and> (run_random c g = Inr (traj, g') \<longrightarrow>
      (\<exists>ps. random_pulls c g = Inr ps \<and> length traj = nat (NUM_STEPS c)
          \<and> (\<forall>t<nat (NUM_STEPS c). traj ! t = cumulative_average ps t)))
   \<and> (1 \<le> NUM_ARMS c \<and> NUM_ARMS c \<le> int (length (TRUE_MEANS c)) \<longrightarrow>
        (\<exists>r. run_epsilon_greedy c epsilon g = Inr r) \<and> (\<exists>r. run_ucb c g = Inr r)
        \<and> (\<exists>r. run_random c g = Inr r))"
proof (intro conjI impI)
  assume "run_epsilon_greedy c epsilon g = Inr ((traj, vs), g')"
  from run_epsilon_greedy_Inr[OF this] obtain st where
    "run_steps (learn_step c (eg_select c epsilon)) (nat (NUM_STEPS c)) (init_state c g) = Inr st"
    "traj = rewards st" by blast
  with learn_trajectory[OF this(1)]
  show "\<exists>ps. eg_pulls c epsilon g = Inr ps \<and> length traj = nat (NUM_STEPS c)
          \<and> (\<forall>t<nat (NUM_STEPS c). traj ! t = cumulative_average ps t)"
    by (simp add: eg_pulls_def)
next
  assume "run_ucb c g = Inr ((traj, vs), g')"
  from run_ucb_Inr[OF this] obtain st where
    "run_steps (learn_step c (ucb_select c)) (nat (NUM_STEPS c)) (init_state c g) = Inr st"
    "traj = rewards st" by blast
  with learn_trajectory[OF this(1)]
  show "\<exists>ps. ucb_pulls c g = Inr ps \<and> length traj = nat (NUM_STEPS c)
          \<and> (\<forall>t<nat (NUM_STEPS c). traj ! t = cumulative_average ps t)"
    by (simp add: ucb_pulls_def)
next
  assume "run_random c g = Inr (traj, g')"
  from run_random_Inr[OF this] obtain st where
    "run_steps (random_step c) (nat (NUM_STEPS c))
            \<lparr>b_total_reward = 0, b_rewards = [], b_gen = g\<rparr> = Inr st"
    "traj = b_rewards st" by blast
  with random_trajectory[OF this(1)]
  show "\<exists>ps. random_pulls c g = Inr ps \<and> length traj = nat (NUM_STEPS c)
          \<and> (\<forall>t<nat (NUM_STEPS c). traj ! t = cumulative_average ps t)"
    by (simp add: random_pulls_def)
next
  assume v: "1 \<le> NUM_ARMS c \<and> NUM_ARMS c \<le> int (length (TRUE_MEANS c))"
  then show "\<exists>r. run_epsilon_greedy c epsilon g = Inr r"
    using run_epsilon_greedy_total[of c epsilon g] by blast
  from v show "\<exists>r. run_ucb c g = Inr r" using run_ucb_total[of c g] by blast
  from v show "\<exists>r. run_random c g = Inr r" using run_random_total[of c g] by blast
qed

theorem trajectory_is_cumulative_average_witness:
  "(\<exists>ps. eg_pulls one_arm 0 (\<lambda>k. 0) = Inr ps \<and> cumulative_average ps 1 = 1)
   \<and> (\<exists>ps. ucb_pulls one_arm (\<lambda>k. 0) = Inr ps \<and> cumulative_average ps 1 = 1)
   \<and> (\<exists>ps. random_pulls one_arm (\<lambda>k. 0) = Inr ps \<and> cumulative_average ps 1 = 1)
   \<and> (\<exists>r. run_epsilon_greedy one_arm 0 (\<lambda>k. 0) = Inr r)"
proof -
  note t = trajectory_is_cumulative_average[of one_arm 0 "\<lambda>k. 0" "[1, 1]" "[1]" "\<lambda>k. 0"]
  have s: "(1::nat) < nat (NUM_STEPS one_arm)" by (simp add: one_arm_def)
  from t one_arm_run_epsilon_greedy obtain ps where
    "eg_pulls one_arm 0 (\<lambda>k. 0) = Inr ps"
    "\<forall>t<nat (NUM_STEPS one_arm). [1, 1] ! t = cumulative_average ps t" by blast
  moreover from this(2) s have "[1, 1] ! 1 = cumulative_average ps 1" by blast
  then have "cumulative_average ps 1 = 1" by simp
  ultimately have a: "\<exists>ps. eg_pulls one_arm 0 (\<lambda>k. 0) = Inr ps \<and> cumulative_average ps 1 = 1"
    by blast
  from t one_arm_run_ucb obtain qs where
    "ucb_pulls one_arm (\<lambda>k. 0) = Inr qs"
    "\<forall>t<nat (NUM_STEPS one_arm). [1, 1] ! t = cumulative_average qs t" by blast
  moreover from this(2) s have "[1, 1] ! 1 = cumulative_average qs 1" by blast
  then have "cumulative_average qs 1 = 1" by simp
  ultimately have b: "\<exists>ps. ucb_pulls one_arm (\<lambda>k. 0) = Inr ps \<and> cumulative_average ps 1 = 1"
    by blast
  from t one_arm_run_random obtain rs where
    "random_pulls one_arm (\<lambda>k. 0) = Inr rs"
    "\<forall>t<nat (NUM_STEPS one_arm). [1, 1] ! t = cumulative_average rs t" by blast
  moreover from this(2) s have "[1, 1] ! 1 = cumulative_average rs 1" by blast
  then have "cumulative_average rs 1 = 1" by simp
  ultimately have c: "\<exists>ps. random_pulls one_arm (\<lambda>k. 0) = Inr ps \<and> cumulative_average ps 1 = 1"
    by blast
  have "1 \<le> NUM_ARMS one_arm \<and> NUM_ARMS one_arm \<le> int (length (TRUE_MEANS one_arm))"
    by (simp add: one_arm_def)
  with t have d: "\<exists>r. run_epsilon_greedy one_arm 0 (\<lambda>k. 0) = Inr r" by blast
  from a b c d show ?thesis by blast
qed

section \<open>The aggregator\<close>

text \<open>
  C7. For every number of runs \<open>n \<ge> 1\<close>, whenever \<^verbatim>\<open>average_runs\<close> returns: the loop has
  collected \<open>n\<close> trajectories, the one at index \<open>i\<close> being the trajectory of run \<open>i\<close>; the
  aggregate curve has length \<open>NUM_STEPS\<close> and its element \<open>t\<close> is the sum over the runs of
  their trajectory values at step \<open>t\<close>, divided by \<open>n\<close>; and for a learning policy the
  averaged final estimates have length \<open>NUM_ARMS\<close> and their element \<open>a\<close> is the sum over
  the runs of their final estimates for arm \<open>a\<close>, divided by \<open>n\<close>. With \<open>NUM_ARMS \<ge> 1\<close> and
  \<^verbatim>\<open>TRUE_MEANS\<close> covering the arms, \<^verbatim>\<open>average_runs\<close> does return.
\<close>

theorem average_runs_is_elementwise_mean:
  assumes "1 \<le> runs"
  shows "(average_runs c s runs g = Inr ((avg, fe), g') \<longrightarrow>
          (\<exists>col. run_steps (collect_step c s) (nat runs)
                    \<lparr>all_rewards = [], all_final_values = [], c_gen = g\<rparr> = Inr col
             \<and> length (all_rewards col) = nat runs
             \<and> (\<forall>i<nat runs. \<exists>e. nth_run c s g i = Inr (all_rewards col ! i, e))
             \<and> length avg = nat (NUM_STEPS c)
             \<and> (\<forall>t<nat (NUM_STEPS c).
                   avg ! t = (\<Sum>i\<leftarrow>[0..<nat runs]. all_rewards col ! i ! t) / real_of_int runs)
             \<and> (s \<noteq> Random_baseline \<longrightarrow>
                  (\<exists>vs. fe = Some vs \<and> length vs = nat (NUM_ARMS c)
                     \<and> (\<forall>i<nat runs. \<exists>r. nth_run c s g i = Inr (r, Some (all_final_values col ! i)))
                     \<and> (\<forall>a<nat (NUM_ARMS c).
                           vs ! a = (\<Sum>i\<leftarrow>[0..<nat runs]. all_final_values col ! i ! a)
                                      / real_of_int runs)))))
       \<and> (1 \<le> NUM_ARMS c \<and> NUM_ARMS c \<le> int (length (TRUE_MEANS c)) \<longrightarrow>
            (\<exists>res. average_runs c s runs g = Inr res))"
proof (intro conjI impI)
  assume res: "average_runs c s runs g = Inr ((avg, fe), g')"
  from average_runs_Inr_collected[OF res] obtain col where
    col: "run_steps (collect_step c s) (nat runs)
            \<lparr>all_rewards = [], all_final_values = [], c_gen = g\<rparr> = Inr col" by blast
  have nz: "runs \<noteq> 0" using assms by simp
  note inv = collect_invariant[OF col]
  from average_runs_collected[OF col nz] res have
    avg: "avg = map (\<lambda>t. (\<Sum>i\<leftarrow>[0..<nat runs]. all_rewards col ! i ! t) / real_of_int runs)
                 [0..<nat (NUM_STEPS c)]"
    and fe: "fe = (if all_final_values col \<noteq> []
                 then Some (map (\<lambda>a. (\<Sum>i\<leftarrow>[0..<nat runs]. all_final_values col ! i ! a)
                                       / real_of_int runs) [0..<nat (NUM_ARMS c)])
                 else None)" by simp_all
  have p1: "length (all_rewards col) = nat runs" using inv by blast
  have p2: "\<forall>i<nat runs. \<exists>e. nth_run c s g i = Inr (all_rewards col ! i, e)" using inv by blast
  have p3: "length avg = nat (NUM_STEPS c)" using avg by simp
  have p4: "\<forall>t<nat (NUM_STEPS c).
                   avg ! t = (\<Sum>i\<leftarrow>[0..<nat runs]. all_rewards col ! i ! t) / real_of_int runs"
    using avg by simp
  have p5: "s \<noteq> Random_baseline \<longrightarrow>
                  (\<exists>vs. fe = Some vs \<and> length vs = nat (NUM_ARMS c)
                     \<and> (\<forall>i<nat runs. \<exists>r. nth_run c s g i = Inr (r, Some (all_final_values col ! i)))
                     \<and> (\<forall>a<nat (NUM_ARMS c).
                           vs ! a = (\<Sum>i\<leftarrow>[0..<nat runs]. all_final_values col ! i ! a)
                                      / real_of_int runs))"
  proof
    assume ns: "s \<noteq> Random_baseline"
    with inv have lf: "length (all_final_values col) = nat runs"
      and runs: "\<forall>i<nat runs. \<exists>r. nth_run c s g i = Inr (r, Some (all_final_values col ! i))"
      by blast+
    have "0 < nat runs" using assms by simp
    with lf have "all_final_values col \<noteq> []" by auto
    with fe have "fe = Some (map (\<lambda>a. (\<Sum>i\<leftarrow>[0..<nat runs]. all_final_values col ! i ! a)
                                       / real_of_int runs) [0..<nat (NUM_ARMS c)])" by simp
    with runs show "\<exists>vs. fe = Some vs \<and> length vs = nat (NUM_ARMS c)
                     \<and> (\<forall>i<nat runs. \<exists>r. nth_run c s g i = Inr (r, Some (all_final_values col ! i)))
                     \<and> (\<forall>a<nat (NUM_ARMS c).
                           vs ! a = (\<Sum>i\<leftarrow>[0..<nat runs]. all_final_values col ! i ! a)
                                      / real_of_int runs)" by simp
  qed
  from col p1 p2 p3 p4 p5
  show "\<exists>col. run_steps (collect_step c s) (nat runs)
                    \<lparr>all_rewards = [], all_final_values = [], c_gen = g\<rparr> = Inr col
             \<and> length (all_rewards col) = nat runs
             \<and> (\<forall>i<nat runs. \<exists>e. nth_run c s g i = Inr (all_rewards col ! i, e))
             \<and> length avg = nat (NUM_STEPS c)
             \<and> (\<forall>t<nat (NUM_STEPS c).
                   avg ! t = (\<Sum>i\<leftarrow>[0..<nat runs]. all_rewards col ! i ! t) / real_of_int runs)
             \<and> (s \<noteq> Random_baseline \<longrightarrow>
                  (\<exists>vs. fe = Some vs \<and> length vs = nat (NUM_ARMS c)
                     \<and> (\<forall>i<nat runs. \<exists>r. nth_run c s g i = Inr (r, Some (all_final_values col ! i)))
                     \<and> (\<forall>a<nat (NUM_ARMS c).
                           vs ! a = (\<Sum>i\<leftarrow>[0..<nat runs]. all_final_values col ! i ! a)
                                      / real_of_int runs)))" by blast
next
  assume "1 \<le> NUM_ARMS c \<and> NUM_ARMS c \<le> int (length (TRUE_MEANS c))"
  then show "\<exists>res. average_runs c s runs g = Inr res"
    using average_runs_total[of c runs s g] assms by auto
qed

theorem average_runs_is_elementwise_mean_witness:
  "\<exists>col. run_steps (collect_step one_arm Ucb) (nat 1)
            \<lparr>all_rewards = [], all_final_values = [], c_gen = (\<lambda>k. 0)\<rparr> = Inr col
      \<and> (\<Sum>i\<leftarrow>[0..<nat 1]. all_rewards col ! i ! 1) / real_of_int 1 = 1
      \<and> (\<Sum>i\<leftarrow>[0..<nat 1]. all_final_values col ! i ! 0) / real_of_int 1 = 1"
proof -
  have r: "(1::int) \<le> 1" by simp
  have s: "(1::nat) < nat (NUM_STEPS one_arm)" "(0::nat) < nat (NUM_ARMS one_arm)"
    by (simp_all add: one_arm_def)
  from average_runs_is_elementwise_mean[OF r, of one_arm Ucb "\<lambda>k. 0" "[1, 1]" "Some [1]" "\<lambda>k. 0"]
    one_arm_average_runs_ucb
  obtain col where
    col: "run_steps (collect_step one_arm Ucb) (nat 1)
            \<lparr>all_rewards = [], all_final_values = [], c_gen = (\<lambda>k. 0)\<rparr> = Inr col"
    and a: "\<forall>t<nat (NUM_STEPS one_arm).
              [1, 1] ! t = (\<Sum>i\<leftarrow>[0..<nat 1]. all_rewards col ! i ! t) / real_of_int 1"
    and b: "\<forall>a<nat (NUM_ARMS one_arm).
              [1] ! a = (\<Sum>i\<leftarrow>[0..<nat 1]. all_final_values col ! i ! a) / real_of_int 1"
    by auto
  from a s(1) have "[1, 1] ! 1 = (\<Sum>i\<leftarrow>[0..<nat 1]. all_rewards col ! i ! 1) / real_of_int 1"
    by blast
  then have a': "(\<Sum>i\<leftarrow>[0..<nat 1]. all_rewards col ! i ! 1) / real_of_int 1 = 1" by simp
  from b s(2) have "[1] ! 0 = (\<Sum>i\<leftarrow>[0..<nat 1]. all_final_values col ! i ! 0) / real_of_int 1"
    by blast
  then have b': "(\<Sum>i\<leftarrow>[0..<nat 1]. all_final_values col ! i ! 0) / real_of_int 1 = 1" by simp
  from col a' b' show ?thesis by blast
qed

text \<open>
  C9. Whenever \<^verbatim>\<open>average_runs\<close> returns for the Random policy, the final-estimate component
  of its result is \<^verbatim>\<open>None\<close>; whenever it returns for a learning policy with at least one
  run, the component is a list of length \<open>NUM_ARMS\<close>. With \<open>NUM_ARMS \<ge> 1\<close>, \<^verbatim>\<open>TRUE_MEANS\<close>
  covering the arms and at least one run, \<^verbatim>\<open>average_runs\<close> does return.
\<close>

theorem final_estimates_absent_exactly_for_random:
  "(average_runs c Random_baseline runs g = Inr ((avg, fe), g') \<longrightarrow> fe = None)
   \<and> (s \<noteq> Random_baseline \<and> 1 \<le> runs \<and> average_runs c s runs g = Inr ((avg, fe), g') \<longrightarrow>
        (\<exists>vs. fe = Some vs \<and> length vs = nat (NUM_ARMS c)))
   \<and> (1 \<le> NUM_ARMS c \<and> NUM_ARMS c \<le> int (length (TRUE_MEANS c)) \<and> 1 \<le> runs \<longrightarrow>
        (\<exists>res. average_runs c s runs g = Inr res))"
proof (intro conjI impI)
  assume res: "average_runs c Random_baseline runs g = Inr ((avg, fe), g')"
  from average_runs_Inr_collected[OF res] obtain col where
    col: "run_steps (collect_step c Random_baseline) (nat runs)
            \<lparr>all_rewards = [], all_final_values = [], c_gen = g\<rparr> = Inr col" by blast
  from collect_invariant[OF col] have "all_final_values col = []" by simp
  with res col show "fe = None" by (auto simp: average_runs_def split: sum.splits)
next
  assume h: "s \<noteq> Random_baseline \<and> 1 \<le> runs \<and> average_runs c s runs g = Inr ((avg, fe), g')"
  then have res: "average_runs c s runs g = Inr ((avg, fe), g')" and ns: "s \<noteq> Random_baseline"
    and r: "1 \<le> runs" by simp_all
  from average_runs_Inr_collected[OF res] obtain col where
    col: "run_steps (collect_step c s) (nat runs)
            \<lparr>all_rewards = [], all_final_values = [], c_gen = g\<rparr> = Inr col" by blast
  from collect_invariant[OF col] ns have "length (all_final_values col) = nat runs" by simp
  moreover have "0 < nat runs" using r by simp
  ultimately have ne: "all_final_values col \<noteq> []" by auto
  have "runs \<noteq> 0" using r by simp
  from average_runs_collected[OF col this] res ne
  show "\<exists>vs. fe = Some vs \<and> length vs = nat (NUM_ARMS c)" by simp
next
  assume "1 \<le> NUM_ARMS c \<and> NUM_ARMS c \<le> int (length (TRUE_MEANS c)) \<and> 1 \<le> runs"
  then show "\<exists>res. average_runs c s runs g = Inr res"
    using average_runs_total[of c runs s g] by auto
qed

theorem final_estimates_absent_exactly_for_random_witness:
  "average_runs one_arm Random_baseline 1 (\<lambda>k. 0) = Inr (([1, 1], None), \<lambda>k. 0)
   \<and> average_runs one_arm Ucb 1 (\<lambda>k. 0) = Inr (([1, 1], Some [1]), \<lambda>k. 0)
   \<and> length [1::real] = nat (NUM_ARMS one_arm)
   \<and> (\<exists>res. average_runs one_arm Epsilon_greedy 1 (\<lambda>k. 0) = Inr res)"
proof -
  have v: "1 \<le> NUM_ARMS one_arm \<and> NUM_ARMS one_arm \<le> int (length (TRUE_MEANS one_arm))
             \<and> (1::int) \<le> 1" by (simp add: one_arm_def)
  have u: "Ucb \<noteq> Random_baseline \<and> (1::int) \<le> 1
             \<and> average_runs one_arm Ucb 1 (\<lambda>k. 0) = Inr (([1, 1], Some [1]), \<lambda>k. 0)"
    using one_arm_average_runs_ucb by simp
  from final_estimates_absent_exactly_for_random
         [of one_arm 1 "\<lambda>k. 0" "[1, 1]" None "\<lambda>k. 0" Epsilon_greedy]
    final_estimates_absent_exactly_for_random
         [of one_arm 1 "\<lambda>k. 0" "[1, 1]" "Some [1]" "\<lambda>k. 0" Ucb]
    one_arm_average_runs_random u v
  show ?thesis by simp
qed

section \<open>Invalid configurations\<close>

text \<open>
  C8 claims that a configuration with an exploration rate outside \<open>[0, 1]\<close> (among other
  defects) is rejected before any simulation begins. The program has no validation: with
  \<open>EPSILON = 2\<close> the aggregator runs Epsilon-Greedy to the end and returns a curve and
  estimates.
\<close>

theorem invalid_epsilon_is_simulated:
  "1 < EPSILON bad_epsilon
   \<and> average_runs bad_epsilon Epsilon_greedy (NUM_RUNS bad_epsilon) (\<lambda>k. 0)
       = Inr (([1, 1], Some [1]), \<lambda>k. 0)"
proof -
  have n: "nat (NUM_STEPS bad_epsilon) = Suc (Suc 0)" "nat (NUM_ARMS bad_epsilon) = Suc 0"
    "NUM_RUNS bad_epsilon = 1" "EPSILON bad_epsilon = 2"
    by (simp_all add: bad_epsilon_def one_arm_def)
  have "average_runs bad_epsilon Epsilon_greedy 1 (\<lambda>k. 0) = Inr (([1, 1], Some [1]), \<lambda>k. 0)"
    unfolding average_runs_def n
    by (simp add: collect_step_def n(4) bad_epsilon_run column_average_def cell_def)
  then show ?thesis by (simp add: n)
qed

text \<open>
  C8, amended. No configuration is validated before the simulation; what an invalid
  configuration does is decided where the runs and the averaging use it:
  \<^item> an exploration rate below \<open>0\<close> gives the runs of rate \<open>0\<close>, one above \<open>1\<close> the runs
    of rate \<open>1\<close>;
  \<^item> with a step count of zero or less every run returns an empty trajectory (and all-zero
    estimates);
  \<^item> with a negative run count \<^verbatim>\<open>average_runs\<close> returns an all-zero curve of length
    \<open>NUM_STEPS\<close> and no estimates;
  \<^item> with a run count of zero and at least one step \<^verbatim>\<open>average_runs\<close> ends in
    \<^verbatim>\<open>ZeroDivisionError\<close>;
  \<^item> with an arm count of zero or less and at least one step every run ends in
    \<^verbatim>\<open>ValueError\<close>;
  \<^item> with at least one arm and more arm means than arms every run returns;
  \<^item> with fewer arm means than arms and than steps the UCB1 run ends in \<^verbatim>\<open>IndexError\<close>.
\<close>

theorem invalid_configurations_are_not_validated:
  "(epsilon \<le> 0 \<longrightarrow> run_epsilon_greedy c epsilon g = run_epsilon_greedy c 0 g)
   \<and> (1 \<le> epsilon \<longrightarrow> run_epsilon_greedy c epsilon g = run_epsilon_greedy c 1 g)
   \<and> (NUM_STEPS c \<le> 0 \<longrightarrow>
        run_epsilon_greedy c epsilon g = Inr (([], replicate (nat (NUM_ARMS c)) 0), g)
        \<and> run_ucb c g = Inr (([], replicate (nat (NUM_ARMS c)) 0), g)
        \<and> run_random c g = Inr ([], g))
   \<and> (runs < 0 \<longrightarrow>
        average_runs c s runs g = Inr ((replicate (nat (NUM_STEPS c)) 0, None), g))
   \<and> (runs = 0 \<and> 1 \<le> NUM_STEPS c \<longrightarrow> average_runs c s runs g = Inl ZeroDivisionError)
   \<and> (NUM_ARMS c \<le> 0 \<and> 1 \<le> NUM_STEPS c \<longrightarrow>
        run_epsilon_greedy c epsilon g = Inl ValueError \<and> run_ucb c g = Inl ValueError
        \<and> run_random c g = Inl ValueError)
   \<and> (1 \<le> NUM_ARMS c \<and> NUM_ARMS c < int (length (TRUE_MEANS c)) \<longrightarrow>
        (\<exists>r. run_epsilon_greedy c epsilon g = Inr r) \<and> (\<exists>r. run_ucb c g = Inr r)
        \<and> (\<exists>r. run_random c g = Inr r))
   \<and> (int (length (TRUE_MEANS c)) < NUM_ARMS c \<and> int (length (TRUE_MEANS c)) < NUM_STEPS c \<longrightarrow>
        run_ucb c g = Inl IndexError)"
proof (intro conjI impI)
  assume e: "epsilon \<le> 0"
  show "run_epsilon_greedy c epsilon g = run_epsilon_greedy c 0 g"
    by (simp only: run_epsilon_greedy_def eg_select_clamp_low[OF e, of c])
next
  assume e: "1 \<le> epsilon"
  show "run_epsilon_greedy c epsilon g = run_epsilon_greedy c 1 g"
    by (simp only: run_epsilon_greedy_def eg_select_clamp_high[OF e, of c])
next
  assume z: "NUM_STEPS c \<le> 0"
  from no_steps_runs(1)[OF z]
  show "run_epsilon_greedy c epsilon g = Inr (([], replicate (nat (NUM_ARMS c)) 0), g)" .
  from no_steps_runs(2)[OF z]
  show "run_ucb c g = Inr (([], replicate (nat (NUM_ARMS c)) 0), g)" .
  from no_steps_runs(3)[OF z] show "run_random c g = Inr ([], g)" .
next
  assume "runs < 0"
  then show "average_runs c s runs g = Inr ((replicate (nat (NUM_STEPS c)) 0, None), g)"
    by (rule negative_runs_average)
next
  assume "runs = 0 \<and> 1 \<le> NUM_STEPS c"
  then show "average_runs c s runs g = Inl ZeroDivisionError"
    using zero_runs_average[of c s g] by simp
next
  assume h: "NUM_ARMS c \<le> 0 \<and> 1 \<le> NUM_STEPS c"
  then have a: "NUM_ARMS c \<le> 0" and b: "1 \<le> NUM_STEPS c" by simp_all
  from no_arms_runs(1)[OF a b] show "run_epsilon_greedy c epsilon g = Inl ValueError" .
  from no_arms_runs(2)[OF a b] show "run_ucb c g = Inl ValueError" .
  from no_arms_runs(3)[OF a b] show "run_random c g = Inl ValueError" .
next
  assume h: "1 \<le> NUM_ARMS c \<and> NUM_ARMS c < int (length (TRUE_MEANS c))"
  then have a: "1 \<le> NUM_ARMS c" and b: "NUM_ARMS c \<le> int (length (TRUE_MEANS c))" by simp_all
  from run_epsilon_greedy_total[OF a b] show "\<exists>r. run_epsilon_greedy c epsilon g = Inr r" by blast
  from run_ucb_total[OF a b] show "\<exists>r. run_ucb c g = Inr r" by blast
  from run_random_total[OF a b] show "\<exists>r. run_random c g = Inr r" by blast
next
  assume "int (length (TRUE_MEANS c)) < NUM_ARMS c \<and> int (length (TRUE_MEANS c)) < NUM_STEPS c"
  then show "run_ucb c g = Inl IndexError" using short_means_ucb[of c g] by simp
qed

theorem invalid_configurations_are_not_validated_witness:
  "run_epsilon_greedy one_arm (- 1) (\<lambda>k. 0) = run_epsilon_greedy one_arm 0 (\<lambda>k. 0)
   \<and> run_epsilon_greedy one_arm 2 (\<lambda>k. 0) = run_epsilon_greedy one_arm 1 (\<lambda>k. 0)
   \<and> run_random (one_arm\<lparr>NUM_STEPS := 0\<rparr>) (\<lambda>k. 0) = Inr ([], \<lambda>k. 0)
   \<and> average_runs one_arm Ucb (- 1) (\<lambda>k. 0) = Inr (([0, 0], None), \<lambda>k. 0)
   \<and> average_runs one_arm Ucb 0 (\<lambda>k. 0) = Inl ZeroDivisionError
   \<and> run_ucb (one_arm\<lparr>NUM_ARMS := 0\<rparr>) (\<lambda>k. 0) = Inl ValueError
   \<and> (\<exists>r. run_ucb (one_arm\<lparr>TRUE_MEANS := [1 / 2, 1 / 2]\<rparr>) (\<lambda>k. 0) = Inr r)
   \<and> run_ucb (two_arms\<lparr>TRUE_MEANS := [1 / 2]\<rparr>) (\<lambda>k. 0) = Inl IndexError"
proof -
  have a: "run_epsilon_greedy one_arm (- 1) (\<lambda>k. 0) = run_epsilon_greedy one_arm 0 (\<lambda>k. 0)"
    using invalid_configurations_are_not_validated[of "- 1" one_arm "\<lambda>k. 0"] by simp
  have b: "run_epsilon_greedy one_arm 2 (\<lambda>k. 0) = run_epsilon_greedy one_arm 1 (\<lambda>k. 0)"
    using invalid_configurations_are_not_validated[of 2 one_arm "\<lambda>k. 0"] by simp
  have c: "run_random (one_arm\<lparr>NUM_STEPS := 0\<rparr>) (\<lambda>k. 0) = Inr ([], \<lambda>k. 0)"
    using invalid_configurations_are_not_validated[of _ "one_arm\<lparr>NUM_STEPS := 0\<rparr>" "\<lambda>k. 0"]
    by simp
  have "nat (NUM_STEPS one_arm) = Suc (Suc 0)" by (simp add: one_arm_def)
  then have d: "average_runs one_arm Ucb (- 1) (\<lambda>k. 0) = Inr (([0, 0], None), \<lambda>k. 0)"
    using invalid_configurations_are_not_validated[of _ one_arm "\<lambda>k. 0" "- 1" Ucb] by simp
  have "1 \<le> NUM_STEPS one_arm" by (simp add: one_arm_def)
  then have e: "average_runs one_arm Ucb 0 (\<lambda>k. 0) = Inl ZeroDivisionError"
    using invalid_configurations_are_not_validated[of _ one_arm "\<lambda>k. 0" 0 Ucb] by simp
  have "NUM_ARMS (one_arm\<lparr>NUM_ARMS := 0\<rparr>) \<le> 0 \<and> 1 \<le> NUM_STEPS (one_arm\<lparr>NUM_ARMS := 0\<rparr>)"
    by (simp add: one_arm_def)
  then have f: "run_ucb (one_arm\<lparr>NUM_ARMS := 0\<rparr>) (\<lambda>k. 0) = Inl ValueError"
    using invalid_configurations_are_not_validated[of _ "one_arm\<lparr>NUM_ARMS := 0\<rparr>" "\<lambda>k. 0"]
    by blast
  let ?l = "one_arm\<lparr>TRUE_MEANS := [1 / 2, 1 / 2]\<rparr>"
  have "1 \<le> NUM_ARMS ?l \<and> NUM_ARMS ?l < int (length (TRUE_MEANS ?l))"
    by (simp add: one_arm_def)
  then have g: "\<exists>r. run_ucb ?l (\<lambda>k. 0) = Inr r"
    using invalid_configurations_are_not_validated[of _ ?l "\<lambda>k. 0"] by blast
  let ?s = "two_arms\<lparr>TRUE_MEANS := [1 / 2]\<rparr>"
  have "int (length (TRUE_MEANS ?s)) < NUM_ARMS ?s \<and> int (length (TRUE_MEANS ?s)) < NUM_STEPS ?s"
    by (simp add: two_arms_def)
  then have h: "run_ucb ?s (\<lambda>k. 0) = Inl IndexError"
    using invalid_configurations_are_not_validated[of _ ?s "\<lambda>k. 0"] by blast
  from a b c d e f g h show ?thesis by blast
qed

end
